theory Spec2Isabelle
  imports Main "HOL-Library.AList"
begin

section \<open>The dependency-injection container of hexon (hexon/core/container.py)\<close>

text \<open>
  The development embeds the resolution engine of \<^verbatim>\<open>hexon/core/container.py\<close>:
  the element contract, the resolution records, the process-wide container cache and the
  construction of a container (\<^verbatim>\<open>_resolve_imports\<close>, \<^verbatim>\<open>_make_resolution\<close>,
  \<^verbatim>\<open>_resolve\<close>, \<^verbatim>\<open>_get\<close>).

  Python objects that are shared and mutated (the \<^verbatim>\<open>_Resolution\<close> records) live in an
  explicit heap; a dictionary is an association list in insertion order, written with
  \<^const>\<open>AList.update\<close> (an existing key keeps its position, a new key goes last) and read
  with \<^const>\<open>map_of\<close>. Exceptions are values of type \<open>error\<close>; a function that can raise
  returns \<open>(error + 'a) \<times> state\<close>, the state being the one the exception leaves behind.
  Calls to the logger change nothing the engine reads and are left out.
\<close>

subsection \<open>Errors\<close>

datatype error_code = NOT_FOUND | INVALID_ELEMENT

datatype error =
    ContainerError string error_code
  | AttributeError string
  | KeyError string
  | TypeError string

subsection \<open>The element contract\<close>

datatype element_kind = Port | Adapter | Service | Container

record meta =
  meta_name :: string
  meta_description :: string
  meta_version :: string
  meta_authors :: "string list"

text \<open>
  What \<^verbatim>\<open>hasattr\<close> sees on an object: each of the three attributes is either absent
  (\<open>None\<close>) or has a value.
\<close>

record pyattrs =
  attr_element :: "element_kind option"
  attr_token :: "string option"
  attr_meta :: "meta option"

text \<open>\<^verbatim>\<open>_Element.__init__\<close>: three checks in source order, nothing else.\<close>

definition Element_init :: "pyattrs \<Rightarrow> error + unit" where
  "Element_init self =
     (if attr_element self = None then
        Inl (ContainerError ''Property '__element__' not found.'' INVALID_ELEMENT)
      else if attr_token self = None then
        Inl (ContainerError ''Property '__token__' not found'' INVALID_ELEMENT)
      else if attr_meta self = None then
        Inl (ContainerError ''Property '__meta__' not found'' INVALID_ELEMENT)
      else Inr ())"

text \<open>
  The argument of \<^verbatim>\<open>ContainerTools.is_element_or_raise\<close> is any Python value: a class
  with its attributes, or something that is not a class.
\<close>

datatype pyvalue = PyClass pyattrs | PyNotClass

definition is_element_or_raise :: "pyvalue \<Rightarrow> error + unit" where
  "is_element_or_raise element =
     (case element of
        PyNotClass \<Rightarrow> Inl (AttributeError ''The element must be a class.'')
      | PyClass a \<Rightarrow>
          if attr_meta a = None then
            Inl (AttributeError ''The element must have a '__meta__' property.'')
          else if attr_token a = None then
            Inl (AttributeError ''The element must have a '__token__' property.'')
          else Inr ())"

subsection \<open>Classes handed to a container\<close>

text \<open>
  A class, as the engine reads it: its identity (\<open>cls_id\<close>, what Python's \<^verbatim>\<open>is\<close> and
  \<^verbatim>\<open>in\<close> compare), \<^verbatim>\<open>__name__\<close>, whether it has the attribute \<^verbatim>\<open>__token__\<close>
  and the value of that attribute when it has one, the identities of its proper
  ancestors, the dictionary \<^verbatim>\<open>get_type_hints(cls.__init__)\<close> in order, the constructor
  parameters that have no default, and whether the class still has abstract methods.
  The decorators \<^verbatim>\<open>Port\<close>, \<^verbatim>\<open>Adapter\<close> and \<^verbatim>\<open>Service\<close> set the token; a class that
  went through none of them (a plain subclass of \<^verbatim>\<open>Element\<close>, or the type of any
  other constructor parameter) has none, and reading \<^verbatim>\<open>cls.__token__\<close> then raises
  \<^verbatim>\<open>AttributeError\<close>. For such a class \<open>cls_token\<close> is never read by the engine.
\<close>

datatype element_class =
  ElementClass
    (cls_id: nat)
    (cls_name: string)
    (cls_has_token: bool)
    (cls_token: string)
    (cls_bases: "nat list")
    (cls_hints: "(string \<times> element_class) list")
    (cls_required: "string list")
    (cls_abstract: bool)

text \<open>The message of the \<^verbatim>\<open>AttributeError\<close> that reading \<^verbatim>\<open>cls.__token__\<close> raises.\<close>

definition no_token_error :: "element_class \<Rightarrow> error" where
  "no_token_error cls =
     AttributeError (''type object '' @ [CHR 0x27] @ cls_name cls @ [CHR 0x27]
                     @ '' has no attribute '__token__'' @ [CHR 0x27])"

definition issubclass :: "element_class \<Rightarrow> element_class \<Rightarrow> bool" where
  "issubclass p c \<longleftrightarrow> cls_id c = cls_id p \<or> cls_id c \<in> set (cls_bases p)"

text \<open>\<^verbatim>\<open>provider in self._exports\<close>: membership by class identity.\<close>

definition cls_mem :: "element_class \<Rightarrow> element_class list \<Rightarrow> bool" where
  "cls_mem p xs \<longleftrightarrow> cls_id p \<in> set (map cls_id xs)"

text \<open>
  A container class after decoration: \<^verbatim>\<open>__name__\<close>, \<^verbatim>\<open>__token__\<close> and the fields of
  \<^verbatim>\<open>__config__\<close>. The import list is evaluated when the class is decorated, so the
  imports of a class are classes that existed before it.
\<close>

datatype container_class =
  ContainerClass
    (cc_name: string)
    (cc_token: string)
    (cc_providers: "element_class list")
    (cc_exports: "element_class list")
    (cc_imports: "container_class list")
    (cc_re_export: bool)

subsection \<open>Instances, resolutions, containers and the process state\<close>

record element_instance =
  inst_id :: nat
  inst_class_id :: nat
  inst_class_name :: string
  inst_kwargs :: "(string \<times> nat) list"

datatype role = Provider | Export

record resolution =
  res_token :: string
  res_type :: role
  res_instance :: element_instance
  res_deps :: "string list"
  res_origin :: "string option"
  res_from_cache :: bool

type_synonym addr = nat

type_synonym resolutions = "(string \<times> addr) list"

record container =
  cont_class :: container_class
  cont_resolutions :: resolutions

text \<open>
  The process state: \<^verbatim>\<open>_Cache._containers\<close>, the heap of \<^verbatim>\<open>_Resolution\<close> objects (an
  address is an index; a new object is appended) and the number of element instances
  created so far, which gives each new instance its identity.
\<close>

record state =
  cache :: "(string \<times> container) list"
  heap :: "resolution list"
  next_obj :: nat

type_synonym 'a result = "(error + 'a) \<times> state"

text \<open>A process that has built nothing yet.\<close>

definition init_state :: state where
  "init_state = \<lparr>cache = [], heap = [], next_obj = 0\<rparr>"

subsection \<open>The process cache\<close>

definition Cache_add :: "container \<Rightarrow> state \<Rightarrow> state" where
  "Cache_add c st = st\<lparr>cache := AList.update (cc_token (cont_class c)) c (cache st)\<rparr>"

definition Cache_get_by_token :: "string \<Rightarrow> state \<Rightarrow> container option" where
  "Cache_get_by_token token st = map_of (cache st) token"

definition Cache_clear :: "state \<Rightarrow> state" where
  "Cache_clear st = st\<lparr>cache := []\<rparr>"

text \<open>The read views \<^verbatim>\<open>providers\<close> and \<^verbatim>\<open>exports\<close> of a container.\<close>

definition providers_view :: "resolution list \<Rightarrow> resolutions \<Rightarrow> resolutions" where
  "providers_view h d = filter (\<lambda>(symbol, a). res_type (h ! a) = Provider) d"

definition exports_view :: "resolution list \<Rightarrow> resolutions \<Rightarrow> resolutions" where
  "exports_view h d = filter (\<lambda>(symbol, a). res_type (h ! a) = Export) d"

text \<open>
  \<^verbatim>\<open>_Cache.get_provider\<close>: the containers in cache order; the first one whose
  \<^verbatim>\<open>providers\<close> view has the token answers with \<^verbatim>\<open>container.resolutions[token]\<close>.
  Its one caller, the loop of \<^verbatim>\<open>_make_resolution\<close>, reaches it in the model only with
  a class that has a token (\<open>resolution_loop\<close> below).
\<close>

fun get_provider_in :: "resolution list \<Rightarrow> string \<Rightarrow> (string \<times> container) list \<Rightarrow> addr option" where
  "get_provider_in h token [] = None"
| "get_provider_in h token ((k, c) # cs) =
     (if token \<in> set (map fst (providers_view h (cont_resolutions c)))
      then map_of (cont_resolutions c) token
      else get_provider_in h token cs)"

definition Cache_get_provider :: "element_class \<Rightarrow> state \<Rightarrow> addr option" where
  "Cache_get_provider provider st = get_provider_in (heap st) (cls_token provider) (cache st)"

subsection \<open>Building one component\<close>

text \<open>
  Calling a class: Python refuses a class with abstract methods and a call that leaves a
  required parameter without a value; the constructor bodies are user code outside the
  engine and return normally. A new instance takes the next identity.
\<close>

definition instantiate :: "element_class \<Rightarrow> (string \<times> element_instance) list \<Rightarrow> state \<Rightarrow> element_instance result" where
  "instantiate cls init_args st =
     (if cls_abstract cls then
        (Inl (TypeError (''Cannot instantiate abstract class '' @ cls_name cls)), st)
      else if \<not> set (cls_required cls) \<subseteq> set (map fst init_args) then
        (Inl (TypeError (cls_name cls @ '' missing required arguments'')), st)
      else
        (Inr \<lparr>inst_id = next_obj st, inst_class_id = cls_id cls,
              inst_class_name = cls_name cls,
              inst_kwargs = map (\<lambda>(p, i). (p, inst_id i)) init_args\<rparr>,
         st\<lparr>next_obj := Suc (next_obj st)\<rparr>))"

text \<open>
  \<^verbatim>\<open>_Container._get\<close>: the declared providers, then the declared exports, for a subclass
  of the requested class, called with no argument; otherwise \<^verbatim>\<open>cls.__token__\<close> is read,
  which raises \<^verbatim>\<open>AttributeError\<close> for a requested class without a token, and the
  resolution map is looked up by that token; otherwise \<^verbatim>\<open>KeyError\<close>. (The public
  accessor \<^verbatim>\<open>get\<close> is a plain read of the map and is not needed below.)
\<close>

definition Container_get :: "container_class \<Rightarrow> resolutions \<Rightarrow> element_class \<Rightarrow> state \<Rightarrow> element_instance result" where
  "Container_get self d cls st =
     (case find (\<lambda>provider. issubclass provider cls) (cc_providers self @ cc_exports self) of
        Some provider \<Rightarrow> instantiate provider [] st
      | None \<Rightarrow>
          if \<not> cls_has_token cls then (Inl (no_token_error cls), st)
          else
            (case map_of d (cls_token cls) of
               Some a \<Rightarrow> (Inr (res_instance (heap st ! a)), st)
             | None \<Rightarrow> (Inl (KeyError (''Provider with '' @ cls_name cls @ '' not found'')), st)))"

text \<open>The loop of \<^verbatim>\<open>_Container._resolve\<close> over the constructor's type hints.\<close>

fun resolve_params ::
  "container_class \<Rightarrow> resolutions \<Rightarrow> (string \<times> element_class) list \<Rightarrow>
   (string \<times> element_instance) list \<Rightarrow> string list \<Rightarrow> state \<Rightarrow>
   ((string \<times> element_instance) list \<times> string list) result" where
  "resolve_params self d [] init_args deps st = (Inr (init_args, deps), st)"
| "resolve_params self d ((param, param_type) # ps) init_args deps st =
     (if param = ''return'' then resolve_params self d ps init_args deps st
      else
        (case Container_get self d param_type st of
           (Inl e, st') \<Rightarrow> (Inl e, st')
         | (Inr dependency, st') \<Rightarrow>
             resolve_params self d ps
               (AList.update param dependency init_args)
               (deps @ [''<'' @ param @ '', '' @ inst_class_name dependency @ ''>''])
               st'))"

definition Container_resolve ::
  "container_class \<Rightarrow> resolutions \<Rightarrow> element_class \<Rightarrow> state \<Rightarrow> (element_instance \<times> string list) result" where
  "Container_resolve self d cls st =
     (case resolve_params self d (cls_hints cls) [] [] st of
        (Inl e, st') \<Rightarrow> (Inl e, st')
      | (Inr (init_args, deps), st') \<Rightarrow>
          (case instantiate cls init_args st' of
             (Inl e, st'') \<Rightarrow> (Inl e, st'')
           | (Inr inst, st'') \<Rightarrow> (Inr (inst, deps), st'')))"

subsection \<open>Constructing a container\<close>

text \<open>Assignments to the fields of a shared \<^verbatim>\<open>_Resolution\<close> object.\<close>

definition set_origin :: "addr \<Rightarrow> string \<Rightarrow> state \<Rightarrow> state" where
  "set_origin a name st = st\<lparr>heap := (heap st)[a := (heap st ! a)\<lparr>res_origin := Some name\<rparr>]\<rparr>"

definition set_from_cache :: "addr \<Rightarrow> bool \<Rightarrow> state \<Rightarrow> state" where
  "set_from_cache a b st = st\<lparr>heap := (heap st)[a := (heap st ! a)\<lparr>res_from_cache := b\<rparr>]\<rparr>"

definition set_type :: "addr \<Rightarrow> role \<Rightarrow> state \<Rightarrow> state" where
  "set_type a r st = st\<lparr>heap := (heap st)[a := (heap st ! a)\<lparr>res_type := r\<rparr>]\<rparr>"

text \<open>\<^verbatim>\<open>_Resolution(token=..., type=..., instance=..., deps=...)\<close>: a new object on the heap.\<close>

definition new_resolution ::
  "string \<Rightarrow> role \<Rightarrow> element_instance \<Rightarrow> string list \<Rightarrow> state \<Rightarrow> addr \<times> state" where
  "new_resolution token r inst deps st =
     (length (heap st),
      st\<lparr>heap := heap st @
           [\<lparr>res_token = token, res_type = r, res_instance = inst, res_deps = deps,
             res_origin = None, res_from_cache = False\<rparr>]\<rparr>)"

text \<open>
  The inner loop of \<^verbatim>\<open>_resolve_imports\<close> over \<^verbatim>\<open>container.exports.items()\<close>. The
  \<^verbatim>\<open>re_export\<close> test inside it guards a log line only, so the flag does not appear.
  \<^verbatim>\<open>self._resolutions[symbol]\<close> is read back from the map after the store.
\<close>

fun merge_exports :: "string \<Rightarrow> resolutions \<Rightarrow> resolutions \<Rightarrow> state \<Rightarrow> resolutions \<times> state" where
  "merge_exports name [] d st = (d, st)"
| "merge_exports name ((symbol, a) # es) d st =
     (let st1 = set_origin a name st;
          d1 = AList.update symbol a d;
          st2 = set_from_cache (the (map_of d1 symbol)) True st1;
          st3 = set_type (the (map_of d1 symbol)) Provider st2
      in merge_exports name es d1 st3)"

text \<open>
  The loop of \<^verbatim>\<open>_make_resolution\<close> over \<^verbatim>\<open>self._providers + self._exports\<close>; \<open>d\<close> is
  \<^verbatim>\<open>self._resolutions\<close>. A round reads \<^verbatim>\<open>provider.__token__\<close> before it changes
  anything: inside \<^verbatim>\<open>get_provider\<close> when the cache holds a container, in the statement
  after it otherwise. So a class without a token ends the loop with \<^verbatim>\<open>AttributeError\<close>
  at the start of its round.
\<close>

fun resolution_loop ::
  "container_class \<Rightarrow> element_class list \<Rightarrow> resolutions \<Rightarrow> state \<Rightarrow> resolutions result" where
  "resolution_loop self [] d st = (Inr d, st)"
| "resolution_loop self (provider # ps) d st =
     (if \<not> cls_has_token provider then (Inl (no_token_error provider), st)
      else
       (let token = cls_token provider in
        case Cache_get_provider provider st of
          Some a \<Rightarrow>
            (let d1 = AList.update token a d;
                 st1 = set_from_cache (the (map_of d1 token)) True st;
                 st2 = set_type (the (map_of d1 token))
                         (if cls_mem provider (cc_exports self) \<and> cc_re_export self
                          then Export else Provider) st1
             in resolution_loop self ps d1 st2)
        | None \<Rightarrow>
            (case Container_resolve self d provider st of
               (Inl e, st1) \<Rightarrow> (Inl e, st1)
             | (Inr (inst, deps), st1) \<Rightarrow>
                 (let (a, st2) = new_resolution token
                                   (if cls_mem provider (cc_providers self) then Provider else Export)
                                   inst deps st1
                  in resolution_loop self ps (AList.update token a d) st2))))"

text \<open>
  \<^verbatim>\<open>_make_resolution\<close>: a container with this token in the cache hands over its map and
  nothing else happens; otherwise the loop runs and, if it ends, the container is added
  to the cache. The result is \<^verbatim>\<open>self._resolutions\<close>.
\<close>

definition Container_make_resolution ::
  "container_class \<Rightarrow> resolutions \<Rightarrow> state \<Rightarrow> resolutions result" where
  "Container_make_resolution self d st =
     (case Cache_get_by_token (cc_token self) st of
        Some c \<Rightarrow> (Inr (cont_resolutions c), st)
      | None \<Rightarrow>
          (case resolution_loop self (cc_providers self @ cc_exports self) d st of
             (Inl e, st1) \<Rightarrow> (Inl e, st1)
           | (Inr d1, st1) \<Rightarrow>
               (Inr d1, Cache_add \<lparr>cont_class = self, cont_resolutions = d1\<rparr> st1)))"

text \<open>
  \<^verbatim>\<open>_Container.__init__\<close> and the outer loop of \<^verbatim>\<open>_resolve_imports\<close>, which calls the
  constructor of an import that is not in the cache. The two tests on \<^verbatim>\<open>__config__\<close> and
  \<^verbatim>\<open>__meta__\<close> pass for every decorated class. \<^verbatim>\<open>_Cache.get\<close> raises on a class that
  is not a container, which the type of the import list excludes. The recursion follows
  the import lists, which are finite; the limit of the Python call stack is not modelled.
\<close>

function Container_init :: "container_class \<Rightarrow> state \<Rightarrow> container result"
and resolve_imports :: "container_class list \<Rightarrow> resolutions \<Rightarrow> state \<Rightarrow> resolutions result" where
  "Container_init self st =
     (case resolve_imports (cc_imports self) [] st of
        (Inl e, st1) \<Rightarrow> (Inl e, st1)
      | (Inr d, st1) \<Rightarrow>
          (case Container_make_resolution self d st1 of
             (Inl e, st2) \<Rightarrow> (Inl e, st2)
           | (Inr d1, st2) \<Rightarrow> (Inr \<lparr>cont_class = self, cont_resolutions = d1\<rparr>, st2)))"
| "resolve_imports [] d st = (Inr d, st)"
| "resolve_imports (container_class # cs) d st =
     (case Cache_get_by_token (cc_token container_class) st of
        Some c \<Rightarrow>
          (let (d1, st1) = merge_exports (cc_name (cont_class c))
                             (exports_view (heap st) (cont_resolutions c)) d st
           in resolve_imports cs d1 st1)
      | None \<Rightarrow>
          (case Container_init container_class st of
             (Inl e, st1) \<Rightarrow> (Inl e, st1)
           | (Inr c, st1) \<Rightarrow>
               (let st2 = Cache_add c st1;
                    (d1, st3) = merge_exports (cc_name (cont_class c))
                                  (exports_view (heap st2) (cont_resolutions c)) d st2
                in resolve_imports cs d1 st3)))"
  by pat_completeness auto

termination
proof (relation "measure (\<lambda>x. case x of Inl (self, st) \<Rightarrow> size self
                                          | Inr (cs, d, st) \<Rightarrow> size_list size cs)")
  fix self :: container_class and st :: state
  show "(Inr (cc_imports self, [], st), Inl (self, st))
        \<in> measure (\<lambda>x. case x of Inl (self, st) \<Rightarrow> size self
                                  | Inr (cs, d, st) \<Rightarrow> size_list size cs)"
    by (cases self) simp
qed simp_all

subsection \<open>A small program to run the engine on\<close>

text \<open>
  A port, two adapters for it (one that does not inherit from the port, as in the
  repository's tests, and one that does) and a service whose constructor asks for the
  port.
\<close>

definition AdderPort :: element_class where
  "AdderPort = ElementClass 1 ''AdderPort'' True ''AdderPort'' [] [] [] True"

definition AdderAdapter :: element_class where
  "AdderAdapter = ElementClass 2 ''AdderAdapter'' True ''AdderPort'' [] [] [] False"

definition AdderSubAdapter :: element_class where
  "AdderSubAdapter = ElementClass 3 ''AdderSubAdapter'' True ''AdderPort'' [1] [] [] False"

definition AdderService :: element_class where
  "AdderService =
     ElementClass 4 ''Service'' True ''AdderService'' [] [(''adder'', AdderPort)] [''adder''] False"

definition SubstractorPort :: element_class where
  "SubstractorPort = ElementClass 5 ''SubstractorPort'' True ''SubstractorPort'' [] [] [] True"

definition SubstractorService :: element_class where
  "SubstractorService =
     ElementClass 6 ''Service'' True ''SubstractorService'' []
       [(''substractor'', SubstractorPort)] [''substractor''] False"

text \<open>
  Containers: one that provides the adapter and exports the service; importers of it; one
  whose exported service asks for a port nobody provides; and containers that list the
  adapter or the service themselves.
\<close>

definition AdderContainer :: container_class where
  "AdderContainer =
     ContainerClass ''AdderContainer'' ''AdderContainer'' [AdderAdapter] [AdderService] [] False"

definition Importer :: container_class where
  "Importer = ContainerClass ''Importer'' ''Importer'' [] [] [AdderContainer] False"



definition BrokenContainer :: container_class where
  "BrokenContainer =
     ContainerClass ''BrokenContainer'' ''BrokenContainer'' [] [SubstractorService]
       [AdderContainer] False"

definition AdapterExporter :: container_class where
  "AdapterExporter =
     ContainerClass ''AdapterExporter'' ''AdapterExporter'' [] [AdderAdapter] [] False"

definition AdapterProvider :: container_class where
  "AdapterProvider =
     ContainerClass ''AdapterProvider'' ''AdapterProvider'' [AdderAdapter] [] [] False"

definition AdapterProviderExporter :: container_class where
  "AdapterProviderExporter =
     ContainerClass ''AdapterProviderExporter'' ''AdapterProviderExporter''
       [AdderAdapter] [AdderAdapter] [] True"

definition AdderContainerRedeclared :: container_class where
  "AdderContainerRedeclared =
     ContainerClass ''AdderContainer'' ''AdderContainer'' [] [SubstractorService] [] False"

text \<open>
  A service whose constructor asks for a \<^verbatim>\<open>float\<close>, a class without a token, and the
  container that exports it; a container whose provider inherits from the port its
  service asks for.
\<close>

definition FloatType :: element_class where
  "FloatType = ElementClass 7 ''float'' False [] [] [] [] False"

definition RateService :: element_class where
  "RateService =
     ElementClass 8 ''Service'' True ''RateService'' [] [(''rate'', FloatType)] [''rate''] False"

definition RateContainer :: container_class where
  "RateContainer = ContainerClass ''RateContainer'' ''RateContainer'' [] [RateService] [] False"

definition SubAdapterContainer :: container_class where
  "SubAdapterContainer =
     ContainerClass ''SubAdapterContainer'' ''SubAdapterContainer''
       [AdderSubAdapter] [AdderService] [] False"

text \<open>
  A second importer of \<open>AdderContainer\<close>; a container that imports \<open>AdapterProvider\<close>,
  \<open>AdderContainer\<close> and \<open>Importer\<close>, which imports \<open>AdderContainer\<close> again; and two
  more containers that list the adapter.
\<close>

definition SecondImporter :: container_class where
  "SecondImporter =
     ContainerClass ''SecondImporter'' ''SecondImporter'' [] [] [AdderContainer] False"


definition AdapterReExporter :: container_class where
  "AdapterReExporter =
     ContainerClass ''AdapterReExporter'' ''AdapterReExporter'' [] [AdderAdapter] [] True"

definition AdapterProviderTwo :: container_class where
  "AdapterProviderTwo =
     ContainerClass ''AdapterProviderTwo'' ''AdapterProviderTwo'' [AdderAdapter] [] [] False"

text \<open>
  The processes after \<^verbatim>\<open>AdderContainer()\<close>, after \<^verbatim>\<open>Importer()\<close> and after
  \<^verbatim>\<open>AdapterProvider()\<close> have run in a new process, and containers these calls return.
\<close>

definition adder_built :: state where
  "adder_built = snd (Container_init AdderContainer init_state)"

definition adder_cached :: container where
  "adder_cached =
     \<lparr>cont_class = AdderContainer,
      cont_resolutions = [(''AdderPort'', 0), (''AdderService'', 1)]\<rparr>"

definition importer_built :: state where
  "importer_built = snd (Container_init Importer init_state)"

definition provider_built :: state where
  "provider_built = snd (Container_init AdapterProvider init_state)"

definition AdapterProvider_built :: container where
  "AdapterProvider_built =
     \<lparr>cont_class = AdapterProvider, cont_resolutions = [(''AdderPort'', 0)]\<rparr>"

text \<open>
  The states in which \<^verbatim>\<open>_get\<close> runs while \<open>SubAdapterContainer\<close> and \<open>AdderContainer\<close>
  are constructed in a new process: the first round of the loop has stored the adapter
  under \<open>AdderPort\<close>, and the second round resolves the service.
\<close>

definition sub_adapter_stored :: state where
  "sub_adapter_stored = snd (resolution_loop SubAdapterContainer [AdderSubAdapter] [] init_state)"

definition adapter_stored :: state where
  "adapter_stored = snd (resolution_loop AdderContainer [AdderAdapter] [] init_state)"

subsection \<open>Notions used in the statements\<close>

text \<open>
  A dictionary of resolutions is well formed in a heap when its keys are distinct and each
  key leads to an existing \<^verbatim>\<open>_Resolution\<close> whose \<^verbatim>\<open>token\<close> field is that key; a
  state is well formed when the dictionary of every cached container is. Every state the
  engine reaches from \<open>init_state\<close> is well formed (\<open>construct_ok\<close> below).
\<close>

definition dict_ok :: "resolution list \<Rightarrow> resolutions \<Rightarrow> bool" where
  "dict_ok h d \<longleftrightarrow>
     distinct (map fst d) \<and>
     (\<forall>k a. map_of d k = Some a \<longrightarrow> a < length h \<and> res_token (h ! a) = k)"

definition state_ok :: "state \<Rightarrow> bool" where
  "state_ok st \<longleftrightarrow> (\<forall>(k, c) \<in> set (cache st). dict_ok (heap st) (cont_resolutions c))"

text \<open>
  The heap only grows, and the \<^verbatim>\<open>token\<close>, \<^verbatim>\<open>instance\<close> and \<^verbatim>\<open>deps\<close> of an existing
  \<^verbatim>\<open>_Resolution\<close> are never assigned.
\<close>

definition heap_le :: "resolution list \<Rightarrow> resolution list \<Rightarrow> bool" where
  "heap_le h h' \<longleftrightarrow>
     length h \<le> length h' \<and>
     (\<forall>a < length h. res_token (h' ! a) = res_token (h ! a)
                    \<and> res_instance (h' ! a) = res_instance (h ! a)
                    \<and> res_deps (h' ! a) = res_deps (h ! a))"

text \<open>A token that is in the cache stays there, with the same dictionary.\<close>

definition cache_le :: "state \<Rightarrow> state \<Rightarrow> bool" where
  "cache_le st st' \<longleftrightarrow>
     (\<forall>t c. Cache_get_by_token t st = Some c \<longrightarrow>
        (\<exists>c'. Cache_get_by_token t st' = Some c' \<and> cont_resolutions c' = cont_resolutions c))"

text \<open>
  The first half of one round of \<^verbatim>\<open>_resolve_imports\<close>: the container that an entry of
  the import list stands for, taken from the cache or else built and added to it.
\<close>

definition obtain_import :: "container_class \<Rightarrow> state \<Rightarrow> container result" where
  "obtain_import container_class st =
     (case Cache_get_by_token (cc_token container_class) st of
        Some c \<Rightarrow> (Inr c, st)
      | None \<Rightarrow>
          (case Container_init container_class st of
             (Inl e, st1) \<Rightarrow> (Inl e, st1)
           | (Inr c, st1) \<Rightarrow> (Inr c, Cache_add c st1)))"

text \<open>
  The role \<^verbatim>\<open>_make_resolution\<close> writes for a class found in the cache, and the role it
  gives a class it builds.
\<close>

definition hit_role :: "container_class \<Rightarrow> element_class \<Rightarrow> role" where
  "hit_role self p = (if cls_mem p (cc_exports self) \<and> cc_re_export self then Export else Provider)"

definition miss_role :: "container_class \<Rightarrow> element_class \<Rightarrow> role" where
  "miss_role self p = (if cls_mem p (cc_providers self) then Provider else Export)"

text \<open>
  Every \<^verbatim>\<open>_Resolution\<close> holds an instance that exists: its identity is below the next
  free one. Every state the engine reaches from \<open>init_state\<close> is so
  (\<open>construct_instances\<close> below).
\<close>

definition instances_ok :: "state \<Rightarrow> bool" where
  "instances_ok st \<longleftrightarrow> (\<forall>r \<in> set (heap st). inst_id (res_instance r) < next_obj st)"


primrec import_tree :: "container_class \<Rightarrow> container_class list" where
  "import_tree (ContainerClass name token providers exports imports' re_export) =
     ContainerClass name token providers exports imports' re_export
       # concat (map import_tree imports')"

definition import_trees :: "container_class list \<Rightarrow> container_class list" where
  "import_trees cs = concat (map import_tree cs)"



definition same_records :: "string \<Rightarrow> state \<Rightarrow> state \<Rightarrow> bool" where
  "same_records S st st' \<longleftrightarrow>
     length (heap st) \<le> length (heap st') \<and>
     (\<forall>a < length (heap st). res_token (heap st ! a) = S \<longrightarrow> heap st' ! a = heap st ! a)"

section \<open>Element validation\<close>

text \<open>
  C7. \<^verbatim>\<open>_Element.__init__\<close> returns normally exactly when the kind, the token and the
  metadata are all present, and raises \<^verbatim>\<open>ContainerError\<close> with code
  \<^verbatim>\<open>INVALID_ELEMENT\<close> as soon as one of them is absent. The function has no state to
  change: it maps the attributes to an error or to \<open>()\<close>.
\<close>

theorem Element_init_requires_all_three:
  "(Element_init self = Inr ()) =
     (attr_element self \<noteq> None \<and> attr_token self \<noteq> None \<and> attr_meta self \<noteq> None)
   \<and> (attr_element self = None \<or> attr_token self = None \<or> attr_meta self = None
        \<longrightarrow> (\<exists>msg. Element_init self = Inl (ContainerError msg INVALID_ELEMENT)))"
  by (auto simp: Element_init_def)

theorem Element_init_requires_all_three_witness:
  "Element_init \<lparr>attr_element = Some Port, attr_token = None,
                 attr_meta = Some \<lparr>meta_name = ''m'', meta_description = [],
                                   meta_version = [], meta_authors = []\<rparr>\<rparr> \<noteq> Inr ()
   \<and> (\<exists>msg. Element_init \<lparr>attr_element = Some Port, attr_token = None,
                 attr_meta = Some \<lparr>meta_name = ''m'', meta_description = [],
                                   meta_version = [], meta_authors = []\<rparr>\<rparr>
          = Inl (ContainerError msg INVALID_ELEMENT))
   \<and> Element_init \<lparr>attr_element = Some Port, attr_token = Some ''T'',
                 attr_meta = Some \<lparr>meta_name = ''m'', meta_description = [],
                                   meta_version = [], meta_authors = []\<rparr>\<rparr> = Inr ()"
  using Element_init_requires_all_three
          [of "\<lparr>attr_element = Some Port, attr_token = None,
                 attr_meta = Some \<lparr>meta_name = ''m'', meta_description = [],
                                   meta_version = [], meta_authors = []\<rparr>\<rparr>"]
        Element_init_requires_all_three
          [of "\<lparr>attr_element = Some Port, attr_token = Some ''T'',
                 attr_meta = Some \<lparr>meta_name = ''m'', meta_description = [],
                                   meta_version = [], meta_authors = []\<rparr>\<rparr>"]
  by simp

text \<open>
  C9, as the spec states it, is false: \<^verbatim>\<open>is_element_or_raise\<close> accepts a class that has
  a token and metadata but no kind, and rejects a class that has a kind and a token but
  no metadata.
\<close>

theorem is_element_or_raise_counterexample:
  "is_element_or_raise
     (PyClass \<lparr>attr_element = None, attr_token = Some ''T'',
               attr_meta = Some \<lparr>meta_name = ''m'', meta_description = [],
                                 meta_version = [], meta_authors = []\<rparr>\<rparr>) = Inr ()
   \<and> is_element_or_raise
       (PyClass \<lparr>attr_element = Some Port, attr_token = Some ''T'', attr_meta = None\<rparr>)
     = Inl (AttributeError ''The element must have a '__meta__' property.'')"
  by (simp add: is_element_or_raise_def)

text \<open>
  C9, amended. \<^verbatim>\<open>is_element_or_raise\<close> returns normally exactly for a class that has
  metadata and a token; every other value raises \<^verbatim>\<open>AttributeError\<close>; the kind is not
  looked at, so changing or removing it never changes the outcome.
\<close>

theorem is_element_or_raise_checks_meta_and_token:
  "(is_element_or_raise x = Inr ()) =
     (\<exists>a. x = PyClass a \<and> attr_meta a \<noteq> None \<and> attr_token a \<noteq> None)
   \<and> (is_element_or_raise x \<noteq> Inr () \<longrightarrow> (\<exists>msg. is_element_or_raise x = Inl (AttributeError msg)))
   \<and> is_element_or_raise (PyClass (a\<lparr>attr_element := k\<rparr>)) = is_element_or_raise (PyClass a)"
  by (cases x) (auto simp: is_element_or_raise_def)

theorem is_element_or_raise_checks_meta_and_token_witness:
  "is_element_or_raise PyNotClass \<noteq> Inr ()
   \<and> (\<exists>msg. is_element_or_raise PyNotClass = Inl (AttributeError msg))
   \<and> is_element_or_raise
       (PyClass \<lparr>attr_element = None, attr_token = Some ''T'',
                 attr_meta = Some \<lparr>meta_name = ''m'', meta_description = [],
                                   meta_version = [], meta_authors = []\<rparr>\<rparr>) = Inr ()"
  using is_element_or_raise_checks_meta_and_token [of PyNotClass]
        is_element_or_raise_checks_meta_and_token
          [of "PyClass \<lparr>attr_element = None, attr_token = Some ''T'',
                 attr_meta = Some \<lparr>meta_name = ''m'', meta_description = [],
                                   meta_version = [], meta_authors = []\<rparr>\<rparr>"]
  by simp

section \<open>Dependency lookup\<close>

lemma find_append_split:
  "find P (xs @ ys) = (case find P xs of Some x \<Rightarrow> Some x | None \<Rightarrow> find P ys)"
  by (induction xs) auto

lemma find_None_iff_all: "(find P xs = None) = (\<forall>x\<in>set xs. \<not> P x)"
  by (induction xs) auto

lemma instantiate_Inr:
  "instantiate cls init_args st = (Inr i, st') \<Longrightarrow>
     \<not> cls_abstract cls \<and> set (cls_required cls) \<subseteq> fst ` set init_args
     \<and> inst_id i = next_obj st \<and> inst_class_id i = cls_id cls
     \<and> inst_kwargs i = map (\<lambda>(p, i). (p, inst_id i)) init_args
     \<and> st' = st\<lparr>next_obj := Suc (next_obj st)\<rparr>"
  by (auto simp: instantiate_def split: if_splits)

lemma instantiate_Inl:
  "instantiate cls init_args st = (Inl e, st') \<Longrightarrow> st' = st"
  by (auto simp: instantiate_def split: if_splits)

text \<open>
  C8, as the spec states it, is false for a requested type that has no token.
  \<open>RateContainer\<close> exports a service whose constructor asks for a \<^verbatim>\<open>float\<close>. No declared
  class is a subclass of \<^verbatim>\<open>float\<close>, so \<^verbatim>\<open>_get\<close> goes on to read \<^verbatim>\<open>cls.__token__\<close>,
  and what it raises is \<^verbatim>\<open>AttributeError\<close>, not the \<^verbatim>\<open>KeyError\<close> that names the
  requested type; the construction of the container ends with that error.
\<close>

theorem Container_get_token_counterexample:
  "find (\<lambda>p. issubclass p FloatType) (cc_providers RateContainer @ cc_exports RateContainer) = None
   \<and> Container_get RateContainer [] FloatType init_state
       = (Inl (AttributeError
                 (''type object 'float' has no attribute '__token__'' @ [CHR 0x27])), init_state)
   \<and> Container_get RateContainer [] FloatType init_state
       \<noteq> (Inl (KeyError ''Provider with float not found''), init_state)
   \<and> Container_init RateContainer init_state
       = (Inl (AttributeError
                 (''type object 'float' has no attribute '__token__'' @ [CHR 0x27])), init_state)"
  by code_simp

text \<open>
  C8, amended. \<^verbatim>\<open>_get\<close> takes the first declared provider that is a subclass of the
  requested class, or else the first such declared export, and calls it, whatever the
  resolution map holds. When that class is concrete and has no required parameter the
  answer is a new instance of it, with the next free identity: asking again gives another
  new instance, and in a state whose records hold existing instances the answer is the
  instance of no record, so not the one the map holds. With no such class, a requested
  class without a token makes the lookup raise \<^verbatim>\<open>AttributeError\<close>; for one with a token
  the instance stored in the map under that token is returned and the state is untouched;
  with none there either, \<^verbatim>\<open>KeyError\<close> names the requested class.
\<close>

theorem Container_get_lookup_order:
  "(find (\<lambda>p. issubclass p cls) (cc_providers self) = Some p
      \<longrightarrow> Container_get self d cls st = instantiate p [] st
          \<and> Container_get self d cls st = Container_get self d' cls st)
   \<and> (find (\<lambda>p. issubclass p cls) (cc_providers self) = None
        \<and> find (\<lambda>p. issubclass p cls) (cc_exports self) = Some p
      \<longrightarrow> Container_get self d cls st = instantiate p [] st
          \<and> Container_get self d cls st = Container_get self d' cls st)
   \<and> (find (\<lambda>p. issubclass p cls) (cc_providers self @ cc_exports self) = Some p
        \<and> \<not> cls_abstract p \<and> cls_required p = []
      \<longrightarrow> Container_get self d cls st
            = (Inr \<lparr>inst_id = next_obj st, inst_class_id = cls_id p,
                    inst_class_name = cls_name p, inst_kwargs = []\<rparr>,
               st\<lparr>next_obj := Suc (next_obj st)\<rparr>)
          \<and> Container_get self d cls (st\<lparr>next_obj := Suc (next_obj st)\<rparr>)
            = (Inr \<lparr>inst_id = Suc (next_obj st), inst_class_id = cls_id p,
                    inst_class_name = cls_name p, inst_kwargs = []\<rparr>,
               st\<lparr>next_obj := Suc (Suc (next_obj st))\<rparr>)
          \<and> (instances_ok st \<longrightarrow>
               (\<forall>r \<in> set (heap st).
                  res_instance r \<noteq> \<lparr>inst_id = next_obj st, inst_class_id = cls_id p,
                                      inst_class_name = cls_name p, inst_kwargs = []\<rparr>)))
   \<and> ((\<forall>q\<in>set (cc_providers self @ cc_exports self). \<not> issubclass q cls)
        \<and> \<not> cls_has_token cls
      \<longrightarrow> Container_get self d cls st = (Inl (no_token_error cls), st))
   \<and> ((\<forall>q\<in>set (cc_providers self @ cc_exports self). \<not> issubclass q cls)
        \<and> cls_has_token cls \<and> map_of d (cls_token cls) = Some a
      \<longrightarrow> Container_get self d cls st = (Inr (res_instance (heap st ! a)), st))
   \<and> ((\<forall>q\<in>set (cc_providers self @ cc_exports self). \<not> issubclass q cls)
        \<and> cls_has_token cls \<and> map_of d (cls_token cls) = None
      \<longrightarrow> Container_get self d cls st
            = (Inl (KeyError (''Provider with '' @ cls_name cls @ '' not found'')), st))"
proof -
  have none: "find (\<lambda>p. issubclass p cls) (cc_providers self @ cc_exports self) = None"
    if "\<forall>q\<in>set (cc_providers self @ cc_exports self). \<not> issubclass q cls"
    using that by (simp only: find_None_iff_all)
  have fresh: "res_instance r \<noteq> \<lparr>inst_id = next_obj st, inst_class_id = cls_id p,
                                    inst_class_name = cls_name p, inst_kwargs = []\<rparr>"
    if "instances_ok st" "r \<in> set (heap st)" for r
  proof
    assume "res_instance r = \<lparr>inst_id = next_obj st, inst_class_id = cls_id p,
                               inst_class_name = cls_name p, inst_kwargs = []\<rparr>"
    then have "inst_id (res_instance r) = next_obj st" by simp
    with that show False by (auto simp: instances_ok_def)
  qed
  show ?thesis
    apply (intro conjI impI allI ballI)
    subgoal by (simp add: Container_get_def find_append_split)
    subgoal by (simp add: Container_get_def find_append_split)
    subgoal by (simp add: Container_get_def find_append_split)
    subgoal by (simp add: Container_get_def find_append_split)
    subgoal by (simp add: Container_get_def instantiate_def)
    subgoal by (simp add: Container_get_def instantiate_def)
    subgoal by (rule fresh)
    subgoal using none by (simp add: Container_get_def)
    subgoal using none by (simp add: Container_get_def)
    subgoal using none by (simp add: Container_get_def)
    done
qed

theorem Container_get_lookup_order_witness:
  "find (\<lambda>p. issubclass p AdderPort)
        (cc_providers SubAdapterContainer @ cc_exports SubAdapterContainer)
     = Some AdderSubAdapter
   \<and> \<not> cls_abstract AdderSubAdapter \<and> cls_required AdderSubAdapter = []
   \<and> instances_ok sub_adapter_stored
   \<and> next_obj sub_adapter_stored = 1
   \<and> heap sub_adapter_stored ! 0 \<in> set (heap sub_adapter_stored)
   \<and> inst_id (res_instance (heap sub_adapter_stored ! 0)) = 0
   \<and> Container_get SubAdapterContainer [(''AdderPort'', 0)] AdderPort sub_adapter_stored
       = (Inr \<lparr>inst_id = next_obj sub_adapter_stored, inst_class_id = cls_id AdderSubAdapter,
               inst_class_name = cls_name AdderSubAdapter, inst_kwargs = []\<rparr>,
          sub_adapter_stored\<lparr>next_obj := Suc (next_obj sub_adapter_stored)\<rparr>)
   \<and> Container_get SubAdapterContainer [(''AdderPort'', 0)] AdderPort
         (sub_adapter_stored\<lparr>next_obj := Suc (next_obj sub_adapter_stored)\<rparr>)
       = (Inr \<lparr>inst_id = Suc (next_obj sub_adapter_stored),
               inst_class_id = cls_id AdderSubAdapter,
               inst_class_name = cls_name AdderSubAdapter, inst_kwargs = []\<rparr>,
          sub_adapter_stored\<lparr>next_obj := Suc (Suc (next_obj sub_adapter_stored))\<rparr>)
   \<and> res_instance (heap sub_adapter_stored ! 0)
       \<noteq> \<lparr>inst_id = next_obj sub_adapter_stored, inst_class_id = cls_id AdderSubAdapter,
           inst_class_name = cls_name AdderSubAdapter, inst_kwargs = []\<rparr>
   \<and> Container_get (ContainerClass ''C'' ''C'' [AdderAdapter] [AdderSubAdapter] [] False)
         [(''AdderPort'', 0)] AdderPort adapter_stored
       = instantiate AdderSubAdapter [] adapter_stored
   \<and> cls_has_token AdderPort \<and> cls_has_token SubstractorPort \<and> \<not> cls_has_token FloatType
   \<and> Container_get AdderContainer [(''AdderPort'', 0)] AdderPort adapter_stored
       = (Inr (res_instance (heap adapter_stored ! 0)), adapter_stored)
   \<and> inst_id (res_instance (heap adapter_stored ! 0)) = 0
   \<and> Container_get AdderContainer [(''AdderPort'', 0)] SubstractorPort adapter_stored
       = (Inl (KeyError (''Provider with '' @ cls_name SubstractorPort @ '' not found'')),
          adapter_stored)
   \<and> Container_get AdderContainer [(''AdderPort'', 0)] FloatType adapter_stored
       = (Inl (no_token_error FloatType), adapter_stored)"
proof -
  have sub: "issubclass AdderSubAdapter AdderPort"
    and nsub: "\<not> issubclass AdderAdapter AdderPort" "\<not> issubclass AdderService AdderPort"
      "\<not> issubclass AdderAdapter SubstractorPort" "\<not> issubclass AdderService SubstractorPort"
      "\<not> issubclass AdderAdapter FloatType" "\<not> issubclass AdderService FloatType"
    by (simp_all add: issubclass_def AdderSubAdapter_def AdderAdapter_def AdderPort_def
          AdderService_def SubstractorPort_def FloatType_def)
  have tok: "cls_has_token AdderPort" "cls_has_token SubstractorPort" "\<not> cls_has_token FloatType"
    by (simp_all add: AdderPort_def SubstractorPort_def FloatType_def)
  have concrete: "\<not> cls_abstract AdderSubAdapter" "cls_required AdderSubAdapter = []"
    by (simp_all add: AdderSubAdapter_def)
  have st: "instances_ok sub_adapter_stored" "next_obj sub_adapter_stored = 1"
    "heap sub_adapter_stored ! 0 \<in> set (heap sub_adapter_stored)"
    "inst_id (res_instance (heap sub_adapter_stored ! 0)) = 0"
    "inst_id (res_instance (heap adapter_stored ! 0)) = 0"
    by code_simp+
  have 1: "find (\<lambda>p. issubclass p AdderPort)
             (cc_providers SubAdapterContainer @ cc_exports SubAdapterContainer)
           = Some AdderSubAdapter"
    using sub by (simp add: SubAdapterContainer_def)
  have 2: "find (\<lambda>p. issubclass p AdderPort)
             (cc_providers (ContainerClass ''C'' ''C'' [AdderAdapter] [AdderSubAdapter] [] False))
           = None
         \<and> find (\<lambda>p. issubclass p AdderPort)
             (cc_exports (ContainerClass ''C'' ''C'' [AdderAdapter] [AdderSubAdapter] [] False))
           = Some AdderSubAdapter"
    using sub nsub by simp
  have 3: "(\<forall>q\<in>set (cc_providers AdderContainer @ cc_exports AdderContainer).
              \<not> issubclass q AdderPort)
           \<and> cls_has_token AdderPort
           \<and> map_of [(''AdderPort'', 0::nat)] (cls_token AdderPort) = Some 0"
    using nsub tok by (simp add: AdderContainer_def AdderPort_def)
  have 4: "(\<forall>q\<in>set (cc_providers AdderContainer @ cc_exports AdderContainer).
              \<not> issubclass q SubstractorPort)
           \<and> cls_has_token SubstractorPort
           \<and> map_of [(''AdderPort'', 0::nat)] (cls_token SubstractorPort) = None"
    using nsub tok by (simp add: AdderContainer_def SubstractorPort_def)
  have 5: "(\<forall>q\<in>set (cc_providers AdderContainer @ cc_exports AdderContainer).
              \<not> issubclass q FloatType)
           \<and> \<not> cls_has_token FloatType"
    using nsub tok by (simp add: AdderContainer_def)
  note thm1 = Container_get_lookup_order
         [where cls = AdderPort and p = AdderSubAdapter and st = sub_adapter_stored
            and self = SubAdapterContainer and d = "[(''AdderPort'', 0)]"]
  from thm1 1 concrete
  have a: "Container_get SubAdapterContainer [(''AdderPort'', 0)] AdderPort sub_adapter_stored
       = (Inr \<lparr>inst_id = next_obj sub_adapter_stored, inst_class_id = cls_id AdderSubAdapter,
               inst_class_name = cls_name AdderSubAdapter, inst_kwargs = []\<rparr>,
          sub_adapter_stored\<lparr>next_obj := Suc (next_obj sub_adapter_stored)\<rparr>)"
    and a2: "Container_get SubAdapterContainer [(''AdderPort'', 0)] AdderPort
         (sub_adapter_stored\<lparr>next_obj := Suc (next_obj sub_adapter_stored)\<rparr>)
       = (Inr \<lparr>inst_id = Suc (next_obj sub_adapter_stored),
               inst_class_id = cls_id AdderSubAdapter,
               inst_class_name = cls_name AdderSubAdapter, inst_kwargs = []\<rparr>,
          sub_adapter_stored\<lparr>next_obj := Suc (Suc (next_obj sub_adapter_stored))\<rparr>)"
    by blast+
  from thm1 1 concrete st(1,3)
  have a3: "res_instance (heap sub_adapter_stored ! 0)
       \<noteq> \<lparr>inst_id = next_obj sub_adapter_stored, inst_class_id = cls_id AdderSubAdapter,
           inst_class_name = cls_name AdderSubAdapter, inst_kwargs = []\<rparr>"
    by blast
  from Container_get_lookup_order
         [where cls = AdderPort and p = AdderSubAdapter and st = adapter_stored
            and self = "ContainerClass ''C'' ''C'' [AdderAdapter] [AdderSubAdapter] [] False"
            and d = "[(''AdderPort'', 0)]"] 2
  have b: "Container_get (ContainerClass ''C'' ''C'' [AdderAdapter] [AdderSubAdapter] [] False)
       [(''AdderPort'', 0)] AdderPort adapter_stored
     = instantiate AdderSubAdapter [] adapter_stored"
    by blast
  from Container_get_lookup_order
         [where cls = AdderPort and a = 0 and st = adapter_stored
            and self = AdderContainer and d = "[(''AdderPort'', 0)]"] 3
  have c: "Container_get AdderContainer [(''AdderPort'', 0)] AdderPort adapter_stored
     = (Inr (res_instance (heap adapter_stored ! 0)), adapter_stored)"
    by blast
  from Container_get_lookup_order
         [where cls = SubstractorPort and st = adapter_stored
            and self = AdderContainer and d = "[(''AdderPort'', 0)]"] 4
  have d: "Container_get AdderContainer [(''AdderPort'', 0)] SubstractorPort adapter_stored
     = (Inl (KeyError (''Provider with '' @ cls_name SubstractorPort @ '' not found'')),
        adapter_stored)"
    by blast
  from Container_get_lookup_order
         [where cls = FloatType and st = adapter_stored
            and self = AdderContainer and d = "[(''AdderPort'', 0)]"] 5
  have e: "Container_get AdderContainer [(''AdderPort'', 0)] FloatType adapter_stored
     = (Inl (no_token_error FloatType), adapter_stored)"
    by blast
  from 1 concrete st a a2 a3 b tok c d e show ?thesis by blast
qed

lemma resolve_params_kwargs:
  "resolve_params self d hints init_args deps st = (Inr (init_args', deps'), st') \<Longrightarrow>
     fst ` set init_args \<subseteq> fst ` set init_args'"
proof (induction hints arbitrary: init_args deps st)
  case Nil
  then show ?case by simp
next
  case (Cons h hints)
  obtain param ty where h: "h = (param, ty)" by (cases h)
  show ?case
  proof (cases "param = ''return''")
    case True
    with Cons h show ?thesis by simp
  next
    case False
    with Cons.prems h obtain dep st1 where
      "resolve_params self d hints (AList.update param dep init_args)
         (deps @ [''<'' @ param @ '', '' @ inst_class_name dep @ ''>'']) st1
       = (Inr (init_args', deps'), st')"
      by (auto split: prod.splits sum.splits)
    from Cons.IH [OF this] show ?thesis
      by (auto simp: dom_update image_iff)
  qed
qed

text \<open>
  C10. When \<^verbatim>\<open>_get\<close> finds a declared class by ancestry, the answer is that class called
  with no argument. So the lookup returns an instance only if the class has no required
  constructor parameter, and that instance was given no dependency; a class with a
  required parameter makes the lookup raise \<^verbatim>\<open>TypeError\<close> and leave the state as it
  was. \<^verbatim>\<open>_resolve\<close> on the same class, when it returns, has passed a value for every
  required parameter.
\<close>

theorem Container_get_calls_without_arguments:
  assumes "find (\<lambda>p. issubclass p cls) (cc_providers self @ cc_exports self) = Some p"
  shows "Container_get self d cls st = instantiate p [] st
       \<and> (\<forall>i st'. Container_get self d cls st = (Inr i, st')
             \<longrightarrow> cls_required p = [] \<and> inst_kwargs i = [])
       \<and> (cls_required p \<noteq> []
             \<longrightarrow> (\<exists>msg. Container_get self d cls st = (Inl (TypeError msg), st)))
       \<and> (\<forall>i deps st'. Container_resolve self d p st = (Inr (i, deps), st')
             \<longrightarrow> set (cls_required p) \<subseteq> fst ` set (inst_kwargs i))"
proof -
  have "set (cls_required p) \<subseteq> fst ` set (inst_kwargs i)"
    if "Container_resolve self d p st = (Inr (i, deps), st')" for i deps st'
  proof -
    from that obtain init_args st1 where
      "instantiate p init_args st1 = (Inr i, st')"
      by (auto simp: Container_resolve_def split: prod.splits sum.splits)
    from instantiate_Inr [OF this] show ?thesis by (force simp: image_iff)
  qed
  then show ?thesis
    using assms by (auto simp: Container_get_def instantiate_def split: if_splits)
qed

theorem Container_get_calls_without_arguments_witness:
  "find (\<lambda>p. issubclass p AdderService)
        (cc_providers (ContainerClass ''C'' ''C'' [AdderSubAdapter] [AdderService] [] False)
         @ cc_exports (ContainerClass ''C'' ''C'' [AdderSubAdapter] [AdderService] [] False))
     = Some AdderService
   \<and> cls_required AdderService \<noteq> []
   \<and> (\<exists>msg. Container_get (ContainerClass ''C'' ''C'' [AdderSubAdapter] [AdderService] [] False)
               [] AdderService init_state = (Inl (TypeError msg), init_state))
   \<and> Container_resolve (ContainerClass ''C'' ''C'' [AdderSubAdapter] [AdderService] [] False)
        [] AdderService init_state
     = (Inr (\<lparr>inst_id = 1, inst_class_id = 4, inst_class_name = ''Service'',
              inst_kwargs = [(''adder'', 0)]\<rparr>, [''<adder, AdderSubAdapter>'']),
        init_state\<lparr>next_obj := 2\<rparr>)"
proof -
  have h: "find (\<lambda>p. issubclass p AdderService)
        (cc_providers (ContainerClass ''C'' ''C'' [AdderSubAdapter] [AdderService] [] False)
         @ cc_exports (ContainerClass ''C'' ''C'' [AdderSubAdapter] [AdderService] [] False))
     = Some AdderService"
    by (simp add: AdderService_def AdderSubAdapter_def AdderPort_def issubclass_def)
  have r: "Container_resolve (ContainerClass ''C'' ''C'' [AdderSubAdapter] [AdderService] [] False)
        [] AdderService init_state
     = (Inr (\<lparr>inst_id = 1, inst_class_id = 4, inst_class_name = ''Service'',
              inst_kwargs = [(''adder'', 0)]\<rparr>, [''<adder, AdderSubAdapter>'']),
        init_state\<lparr>next_obj := 2\<rparr>)"
    by (simp add: Container_resolve_def Container_get_def instantiate_def init_state_def
          AdderService_def AdderSubAdapter_def AdderPort_def issubclass_def)
  have q: "cls_required AdderService \<noteq> []"
    by (simp add: AdderService_def)
  from Container_get_calls_without_arguments [OF h, of "[]" init_state] q
  have "\<exists>msg. Container_get (ContainerClass ''C'' ''C'' [AdderSubAdapter] [AdderService] [] False)
               [] AdderService init_state = (Inl (TypeError msg), init_state)"
    by blast
  with h q r show ?thesis by blast
qed

section \<open>Invariants of the construction\<close>

subsection \<open>heap order\<close>

lemma in_set_AList_update:
  "(k', v') \<in> set (AList.update k v al) \<Longrightarrow> (k', v') = (k, v) \<or> (k', v') \<in> set al"
  by (induction al) (auto split: if_splits)

lemma heap_le_list_update:
  assumes "\<And>x. res_token (g x) = res_token x \<and> res_instance (g x) = res_instance x
               \<and> res_deps (g x) = res_deps x"
  shows "heap_le h (h[a := g (h ! a)])"
  unfolding heap_le_def
proof (intro conjI allI impI)
  fix b assume "b < length h"
  then show "res_token (h[a := g (h ! a)] ! b) = res_token (h ! b)"
            "res_instance (h[a := g (h ! a)] ! b) = res_instance (h ! b)"
            "res_deps (h[a := g (h ! a)] ! b) = res_deps (h ! b)"
    using assms by (cases "b = a"; simp)+
qed simp

lemma heap_le_refl [simp]: "heap_le h h"
  by (simp add: heap_le_def)

lemma heap_le_trans: "heap_le h1 h2 \<Longrightarrow> heap_le h2 h3 \<Longrightarrow> heap_le h1 h3"
  by (auto simp: heap_le_def)

lemma dict_ok_heap_le: "dict_ok h d \<Longrightarrow> heap_le h h' \<Longrightarrow> dict_ok h' d"
  by (fastforce simp: dict_ok_def heap_le_def)

lemma dict_ok_Nil [simp]: "dict_ok h []"
  by (simp add: dict_ok_def)

lemma dict_ok_lookup:
  "dict_ok h d \<Longrightarrow> map_of d k = Some a \<Longrightarrow> a < length h \<and> res_token (h ! a) = k"
  by (auto simp: dict_ok_def)

lemma dict_ok_update:
  "dict_ok h d \<Longrightarrow> a < length h \<Longrightarrow> res_token (h ! a) = k \<Longrightarrow> dict_ok h (AList.update k a d)"
  by (auto simp: dict_ok_def distinct_update update_conv' split: if_splits)

lemma state_ok_heap_le:
  "state_ok st \<Longrightarrow> cache st' = cache st \<Longrightarrow> heap_le (heap st) (heap st') \<Longrightarrow> state_ok st'"
  by (auto simp: state_ok_def intro: dict_ok_heap_le)

lemma state_ok_init [simp]: "state_ok init_state"
  by (simp add: state_ok_def init_state_def)

lemma state_ok_Cache_clear: "state_ok (Cache_clear st)"
  by (simp add: state_ok_def Cache_clear_def)

lemma state_ok_Cache_add:
  "state_ok st \<Longrightarrow> dict_ok (heap st) (cont_resolutions c) \<Longrightarrow> state_ok (Cache_add c st)"
  by (auto simp: state_ok_def Cache_add_def dest!: in_set_AList_update)

lemma state_ok_cached:
  "state_ok st \<Longrightarrow> Cache_get_by_token t st = Some c \<Longrightarrow> dict_ok (heap st) (cont_resolutions c)"
  by (auto simp: state_ok_def Cache_get_by_token_def dest!: map_of_SomeD)

subsection \<open>field assignments\<close>

lemma set_origin_simps [simp]:
  "cache (set_origin a n st) = cache st" "next_obj (set_origin a n st) = next_obj st"
  "length (heap (set_origin a n st)) = length (heap st)"
  "b \<noteq> a \<Longrightarrow> heap (set_origin a n st) ! b = heap st ! b"
  "a < length (heap st) \<Longrightarrow> heap (set_origin a n st) ! a = (heap st ! a)\<lparr>res_origin := Some n\<rparr>"
  by (simp_all add: set_origin_def)

lemma set_from_cache_simps [simp]:
  "cache (set_from_cache a v st) = cache st" "next_obj (set_from_cache a v st) = next_obj st"
  "length (heap (set_from_cache a v st)) = length (heap st)"
  "b \<noteq> a \<Longrightarrow> heap (set_from_cache a v st) ! b = heap st ! b"
  "a < length (heap st) \<Longrightarrow> heap (set_from_cache a v st) ! a = (heap st ! a)\<lparr>res_from_cache := v\<rparr>"
  by (simp_all add: set_from_cache_def)

lemma set_type_simps [simp]:
  "cache (set_type a r st) = cache st" "next_obj (set_type a r st) = next_obj st"
  "length (heap (set_type a r st)) = length (heap st)"
  "b \<noteq> a \<Longrightarrow> heap (set_type a r st) ! b = heap st ! b"
  "a < length (heap st) \<Longrightarrow> heap (set_type a r st) ! a = (heap st ! a)\<lparr>res_type := r\<rparr>"
  by (simp_all add: set_type_def)

lemma heap_le_set_origin [simp]: "heap_le (heap st) (heap (set_origin a n st))"
  unfolding set_origin_def by (simp add: heap_le_list_update [where g = "\<lambda>x. x\<lparr>res_origin := Some n\<rparr>"])

lemma heap_le_set_from_cache [simp]: "heap_le (heap st) (heap (set_from_cache a v st))"
  unfolding set_from_cache_def by (simp add: heap_le_list_update [where g = "\<lambda>x. x\<lparr>res_from_cache := v\<rparr>"])

lemma heap_le_set_type [simp]: "heap_le (heap st) (heap (set_type a r st))"
  unfolding set_type_def by (simp add: heap_le_list_update [where g = "\<lambda>x. x\<lparr>res_type := r\<rparr>"])

lemma new_resolution_simps:
  "new_resolution t r i ds st = (a, st') \<Longrightarrow>
     a = length (heap st) \<and> cache st' = cache st \<and> next_obj st' = next_obj st
     \<and> heap st' = heap st @ [\<lparr>res_token = t, res_type = r, res_instance = i, res_deps = ds,
                               res_origin = None, res_from_cache = False\<rparr>]"
  by (auto simp: new_resolution_def)

lemma heap_le_append [simp]: "heap_le h (h @ xs)"
  by (auto simp: heap_le_def nth_append)

subsection \<open>building a component leaves heap and cache alone\<close>

lemma instantiate_frame:
  "instantiate cls args st = (r, st') \<Longrightarrow> heap st' = heap st \<and> cache st' = cache st"
  by (auto simp: instantiate_def split: if_splits)

lemma Container_get_frame:
  "Container_get self d cls st = (r, st') \<Longrightarrow> heap st' = heap st \<and> cache st' = cache st"
  by (auto simp: Container_get_def split: option.splits if_splits dest: instantiate_frame)

lemma resolve_params_frame:
  "resolve_params self d hints args deps st = (r, st') \<Longrightarrow>
     heap st' = heap st \<and> cache st' = cache st"
proof (induction hints arbitrary: args deps st)
  case Nil
  then show ?case by auto
next
  case (Cons h hints)
  obtain param ty where h: "h = (param, ty)" by (cases h)
  show ?case
  proof (cases "param = ''return''")
    case True
    with Cons h show ?thesis by simp
  next
    case False
    obtain r1 st1 where g: "Container_get self d ty st = (r1, st1)" by (cases "Container_get self d ty st")
    from Container_get_frame [OF g] have f: "heap st1 = heap st \<and> cache st1 = cache st" .
    show ?thesis
    proof (cases r1)
      case (Inl e)
      with Cons.prems h False g f show ?thesis by auto
    next
      case (Inr dep)
      with Cons.prems h False g
      have "resolve_params self d hints (AList.update param dep args)
              (deps @ [''<'' @ param @ '', '' @ inst_class_name dep @ ''>'']) st1 = (r, st')"
        by simp
      from Cons.IH [OF this] f show ?thesis by simp
    qed
  qed
qed

lemma Container_resolve_frame:
  "Container_resolve self d cls st = (r, st') \<Longrightarrow> heap st' = heap st \<and> cache st' = cache st"
  by (auto simp: Container_resolve_def split: prod.splits sum.splits
           dest!: resolve_params_frame instantiate_frame)


subsection \<open>provider lookup in the cache\<close>

lemma providers_view_keys:
  "distinct (map fst d) \<Longrightarrow>
     t \<in> set (map fst (providers_view h d)) \<longleftrightarrow>
       (\<exists>a. map_of d t = Some a \<and> res_type (h ! a) = Provider)"
  by (force simp: providers_view_def)

lemma exports_view_keys:
  "distinct (map fst d) \<Longrightarrow>
     t \<in> set (map fst (exports_view h d)) \<longleftrightarrow>
       (\<exists>a. map_of d t = Some a \<and> res_type (h ! a) = Export)"
  by (force simp: exports_view_def)

lemma get_provider_in_Some:
  assumes "\<forall>(k, c) \<in> set cs. dict_ok h (cont_resolutions c)"
    and "get_provider_in h t cs = Some a"
  shows "a < length h \<and> res_token (h ! a) = t \<and> res_type (h ! a) = Provider"
  using assms
proof (induction cs)
  case Nil
  then show ?case by simp
next
  case (Cons kc cs)
  obtain k c where kc: "kc = (k, c)" by (cases kc)
  from Cons.prems kc have ok: "dict_ok h (cont_resolutions c)" by simp
  show ?case
  proof (cases "t \<in> set (map fst (providers_view h (cont_resolutions c)))")
    case True
    with Cons.prems kc have m: "map_of (cont_resolutions c) t = Some a" by simp
    from ok have "distinct (map fst (cont_resolutions c))" by (simp add: dict_ok_def)
    from True m providers_view_keys [OF this, of t h]
    have "res_type (h ! a) = Provider" by auto
    with dict_ok_lookup [OF ok m] show ?thesis by simp
  next
    case False
    with Cons kc show ?thesis by simp
  qed
qed

lemma Cache_get_provider_Some:
  "state_ok st \<Longrightarrow> Cache_get_provider p st = Some a \<Longrightarrow>
     a < length (heap st) \<and> res_token (heap st ! a) = cls_token p
     \<and> res_type (heap st ! a) = Provider"
  unfolding Cache_get_provider_def state_ok_def by (rule get_provider_in_Some)

lemma get_provider_in_cong:
  assumes "\<forall>(k, c) \<in> set cs. \<forall>a. (t, a) \<in> set (cont_resolutions c)
              \<longrightarrow> res_type (h' ! a) = res_type (h ! a)"
  shows "get_provider_in h' t cs = get_provider_in h t cs"
  using assms
proof (induction cs)
  case Nil
  then show ?case by simp
next
  case (Cons kc cs)
  obtain k c where kc: "kc = (k, c)" by (cases kc)
  from Cons.prems kc
  have same: "\<And>a. (t, a) \<in> set (cont_resolutions c) \<Longrightarrow> res_type (h' ! a) = res_type (h ! a)"
    by simp
  have "t \<in> set (map fst (providers_view h' (cont_resolutions c)))
        \<longleftrightarrow> t \<in> set (map fst (providers_view h (cont_resolutions c)))"
    by (auto simp: providers_view_def image_iff same)
  with Cons kc show ?case by simp
qed

subsection \<open>one round of the resolution loop\<close>

lemma resolution_loop_step:
  assumes "resolution_loop self (p # ps) d st = (r, st')"
  shows "(\<exists>e. r = Inl e \<and> heap st' = heap st \<and> cache st' = cache st)
       \<or> (\<exists>a st2. resolution_loop self ps (AList.update (cls_token p) a d) st2 = (r, st')
              \<and> cache st2 = cache st \<and> cls_has_token p
              \<and> ((Cache_get_provider p st = Some a
                    \<and> heap st2 = (heap st)[a := (heap st ! a)\<lparr>res_from_cache := True,
                                                              res_type := hit_role self p\<rparr>])
                 \<or> (Cache_get_provider p st = None \<and> a = length (heap st)
                    \<and> (\<exists>i ds. heap st2 = heap st @
                          [\<lparr>res_token = cls_token p, res_type = miss_role self p,
                            res_instance = i, res_deps = ds, res_origin = None,
                            res_from_cache = False\<rparr>]))))"
proof (cases "cls_has_token p")
  case False
  with assms show ?thesis by auto
next
  case tok: True
  show ?thesis
  proof (cases "Cache_get_provider p st")
  case (Some a)
  let ?st2 = "set_type a (hit_role self p) (set_from_cache a True st)"
  have h: "heap ?st2 = (heap st)[a := (heap st ! a)\<lparr>res_from_cache := True,
                                                  res_type := hit_role self p\<rparr>]"
    by (cases "a < length (heap st)")
       (simp_all add: set_type_def set_from_cache_def list_update_beyond)
  from assms Some tok
  have "resolution_loop self ps (AList.update (cls_token p) a d) ?st2 = (r, st')"
    by (simp add: update_conv' hit_role_def Let_def)
  with Some h tok show ?thesis by (intro disjI2 exI [of _ a] exI [of _ ?st2]) simp
next
  case None
  obtain r1 st1 where res: "Container_resolve self d p st = (r1, st1)"
    by (cases "Container_resolve self d p st")
  from Container_resolve_frame [OF res] have f: "heap st1 = heap st" "cache st1 = cache st"
    by simp_all
  show ?thesis
  proof (cases r1)
    case (Inl e)
    with assms None res f tok show ?thesis by auto
  next
    case (Inr idp)
    obtain i ds where idp: "idp = (i, ds)" by (cases idp)
    let ?st2 = "snd (new_resolution (cls_token p) (miss_role self p) i ds st1)"
    from assms None res Inr idp f tok
    have "resolution_loop self ps (AList.update (cls_token p) (length (heap st)) d) ?st2 = (r, st')"
      by (auto simp: new_resolution_def miss_role_def Let_def split: if_splits)
    moreover have "heap ?st2 = heap st @
                          [\<lparr>res_token = cls_token p, res_type = miss_role self p,
                            res_instance = i, res_deps = ds, res_origin = None,
                            res_from_cache = False\<rparr>]" "cache ?st2 = cache st"
      using f by (simp_all add: new_resolution_def)
    ultimately show ?thesis using None tok
      by (intro disjI2 exI [of _ "length (heap st)"] exI [of _ ?st2]) auto
  qed
qed
qed


lemma resolution_loop_ConsE:
  assumes "resolution_loop self (p # ps) d st = (r, st')"
  obtains
    (fail) e where "r = Inl e" "heap st' = heap st" "cache st' = cache st"
  | (hit) a st2 where "Cache_get_provider p st = Some a"
        "resolution_loop self ps (AList.update (cls_token p) a d) st2 = (r, st')"
        "cache st2 = cache st"
        "heap st2 = (heap st)[a := (heap st ! a)\<lparr>res_from_cache := True,
                                                  res_type := hit_role self p\<rparr>]"
  | (miss) st2 i ds where "Cache_get_provider p st = None"
        "resolution_loop self ps (AList.update (cls_token p) (length (heap st)) d) st2 = (r, st')"
        "cache st2 = cache st"
        "heap st2 = heap st @
            [\<lparr>res_token = cls_token p, res_type = miss_role self p, res_instance = i,
              res_deps = ds, res_origin = None, res_from_cache = False\<rparr>]"
  using resolution_loop_step [OF assms] by blast

lemma heap_le_hit:
  "heap_le h (h[a := (h ! a)\<lparr>res_from_cache := v, res_type := r\<rparr>])"
  by (simp add: heap_le_list_update [where g = "\<lambda>x. x\<lparr>res_from_cache := v, res_type := r\<rparr>"])

lemma resolution_loop_basic:
  "resolution_loop self ps d st = (r, st') \<Longrightarrow>
     cache st' = cache st \<and> heap_le (heap st) (heap st')"
proof (induction ps arbitrary: d st)
  case Nil
  then show ?case by simp
next
  case (Cons p ps)
  from Cons.prems show ?case
  proof (cases rule: resolution_loop_ConsE)
    case (fail e)
    then show ?thesis by simp
  next
    case (hit a st2)
    from Cons.IH [OF hit(2)] hit(3,4) show ?thesis
      by (auto intro: heap_le_trans [OF heap_le_hit])
  next
    case (miss st2 i ds)
    from Cons.IH [OF miss(2)] miss(3,4) show ?thesis
      by (auto intro: heap_le_trans [OF heap_le_append])
  qed
qed

lemma resolution_loop_state_ok:
  "state_ok st \<Longrightarrow> resolution_loop self ps d st = (r, st') \<Longrightarrow> state_ok st'"
  using resolution_loop_basic state_ok_heap_le by blast

lemma resolution_loop_dict_ok:
  "state_ok st \<Longrightarrow> dict_ok (heap st) d \<Longrightarrow> resolution_loop self ps d st = (Inr d', st')
     \<Longrightarrow> dict_ok (heap st') d'"
proof (induction ps arbitrary: d st)
  case Nil
  then show ?case by simp
next
  case (Cons p ps)
  from Cons.prems(3) show ?case
  proof (cases rule: resolution_loop_ConsE)
    case (fail e)
    then show ?thesis by simp
  next
    case (hit a st2)
    have le: "heap_le (heap st) (heap st2)" using hit(4) by (simp add: heap_le_hit)
    from Cache_get_provider_Some [OF Cons.prems(1) hit(1)]
    have a: "a < length (heap st)" "res_token (heap st ! a) = cls_token p" by simp_all
    have "dict_ok (heap st) (AList.update (cls_token p) a d)"
      using Cons.prems(2) a by (rule dict_ok_update)
    then have "dict_ok (heap st2) (AList.update (cls_token p) a d)"
      using le by (rule dict_ok_heap_le)
    moreover have "state_ok st2"
      using Cons.prems(1) hit(3) le by (rule state_ok_heap_le)
    ultimately show ?thesis using Cons.IH hit(2) by blast
  next
    case (miss st2 i ds)
    have le: "heap_le (heap st) (heap st2)" using miss(4) by simp
    have "dict_ok (heap st2) d" using Cons.prems(2) le by (rule dict_ok_heap_le)
    then have "dict_ok (heap st2) (AList.update (cls_token p) (length (heap st)) d)"
      by (rule dict_ok_update) (simp_all add: miss(4))
    moreover have "state_ok st2"
      using Cons.prems(1) miss(3) le by (rule state_ok_heap_le)
    ultimately show ?thesis using Cons.IH miss(2) by blast
  qed
qed

lemma resolution_loop_frame:
  "state_ok st \<Longrightarrow> resolution_loop self ps d st = (r, st') \<Longrightarrow> a < length (heap st)
     \<Longrightarrow> res_token (heap st ! a) \<notin> cls_token ` set ps \<Longrightarrow> heap st' ! a = heap st ! a"
proof (induction ps arbitrary: d st)
  case Nil
  then show ?case by simp
next
  case (Cons p ps)
  from Cons.prems(2) show ?case
  proof (cases rule: resolution_loop_ConsE)
    case (fail e)
    then show ?thesis by simp
  next
    case (hit b st2)
    have le: "heap_le (heap st) (heap st2)" using hit(4) by (simp add: heap_le_hit)
    from Cache_get_provider_Some [OF Cons.prems(1) hit(1)] Cons.prems(4)
    have "b \<noteq> a" by auto
    then have same: "heap st2 ! a = heap st ! a" using hit(4) by simp
    moreover have "state_ok st2"
      using Cons.prems(1) hit(3) le by (rule state_ok_heap_le)
    moreover have "a < length (heap st2)" using hit(4) Cons.prems(3) by simp
    ultimately show ?thesis using Cons.IH [OF _ hit(2)] Cons.prems(4) by simp
  next
    case (miss st2 i ds)
    have le: "heap_le (heap st) (heap st2)" using miss(4) by simp
    have same: "heap st2 ! a = heap st ! a" using miss(4) Cons.prems(3) by (simp add: nth_append)
    moreover have "state_ok st2"
      using Cons.prems(1) miss(3) le by (rule state_ok_heap_le)
    moreover have "a < length (heap st2)" using miss(4) Cons.prems(3) by simp
    ultimately show ?thesis using Cons.IH [OF _ miss(2)] Cons.prems(4) by simp
  qed
qed

lemma resolution_loop_map:
  "resolution_loop self ps d st = (Inr d', st') \<Longrightarrow> k \<notin> cls_token ` set ps
     \<Longrightarrow> map_of d' k = map_of d k"
proof (induction ps arbitrary: d st)
  case Nil
  then show ?case by simp
next
  case (Cons p ps)
  from Cons.prems(1) show ?case
  proof (cases rule: resolution_loop_ConsE)
    case (fail e)
    then show ?thesis by simp
  next
    case (hit a st2)
    from Cons.IH [OF hit(2)] Cons.prems(2) show ?thesis by (simp add: update_conv')
  next
    case (miss st2 i ds)
    from Cons.IH [OF miss(2)] Cons.prems(2) show ?thesis by (simp add: update_conv')
  qed
qed

lemma AList_update_new: "k \<notin> fst ` set al \<Longrightarrow> AList.update k v al = al @ [(k, v)]"
  by (induction al) auto

lemma resolution_loop_keys:
  "resolution_loop self ps d st = (Inr d', st') \<Longrightarrow> distinct (map cls_token ps)
     \<Longrightarrow> cls_token ` set ps \<inter> fst ` set d = {}
     \<Longrightarrow> map fst d' = map fst d @ map cls_token ps"
proof (induction ps arbitrary: d st)
  case Nil
  then show ?case by simp
next
  case (Cons p ps)
  have new: "cls_token p \<notin> fst ` set d" using Cons.prems(3) by auto
  have disj: "cls_token ` set ps \<inter> fst ` set (d @ [(cls_token p, a)]) = {}" for a
    using Cons.prems(2,3) by auto
  from Cons.prems(1) show ?case
  proof (cases rule: resolution_loop_ConsE)
    case (fail e)
    then show ?thesis by simp
  next
    case (hit a st2)
    from hit(2) have "resolution_loop self ps (d @ [(cls_token p, a)]) st2 = (Inr d', st')"
      by (simp add: AList_update_new [OF new])
    from Cons.IH [OF this _ disj] Cons.prems(2) show ?thesis by simp
  next
    case (miss st2 i ds)
    from miss(2)
    have "resolution_loop self ps (d @ [(cls_token p, length (heap st))]) st2 = (Inr d', st')"
      by (simp add: AList_update_new [OF new])
    from Cons.IH [OF this _ disj] Cons.prems(2) show ?thesis by simp
  qed
qed

lemma resolution_loop_roles:
  "state_ok st \<Longrightarrow> resolution_loop self ps d st = (r, st') \<Longrightarrow> a < length (heap st)
     \<Longrightarrow> res_type (heap st' ! a) \<noteq> res_type (heap st ! a)
     \<Longrightarrow> \<exists>p \<in> set ps. cls_token p = res_token (heap st ! a) \<and> hit_role self p = Export"
proof (induction ps arbitrary: d st)
  case Nil
  then show ?case by simp
next
  case (Cons p ps)
  from Cons.prems(2) show ?case
  proof (cases rule: resolution_loop_ConsE)
    case (fail e)
    with Cons.prems show ?thesis by simp
  next
    case (hit b st2)
    have le: "heap_le (heap st) (heap st2)" using hit(4) by (simp add: heap_le_hit)
    have ok2: "state_ok st2" using Cons.prems(1) hit(3) le by (rule state_ok_heap_le)
    have a2: "a < length (heap st2)" using hit(4) Cons.prems(3) by simp
    have tok: "res_token (heap st2 ! a) = res_token (heap st ! a)"
      using le Cons.prems(3) by (simp add: heap_le_def)
    note b = Cache_get_provider_Some [OF Cons.prems(1) hit(1)]
    show ?thesis
    proof (cases "res_type (heap st2 ! a) = res_type (heap st ! a)")
      case True
      with Cons.prems(4) have "res_type (heap st' ! a) \<noteq> res_type (heap st2 ! a)" by simp
      from Cons.IH [OF ok2 hit(2) a2 this] tok show ?thesis by auto
    next
      case False
      then have "a = b" using hit(4) by (cases "a = b") auto
      with False b hit(4) have "hit_role self p = Export \<and> cls_token p = res_token (heap st ! a)"
        by (cases "hit_role self p") auto
      then show ?thesis by auto
    qed
  next
    case (miss st2 i ds)
    have le: "heap_le (heap st) (heap st2)" using miss(4) by simp
    have ok2: "state_ok st2" using Cons.prems(1) miss(3) le by (rule state_ok_heap_le)
    have a2: "a < length (heap st2)" using miss(4) Cons.prems(3) by simp
    have same: "heap st2 ! a = heap st ! a" using miss(4) Cons.prems(3) by (simp add: nth_append)
    with Cons.prems(4) have "res_type (heap st' ! a) \<noteq> res_type (heap st2 ! a)" by simp
    from Cons.IH [OF ok2 miss(2) a2 this] same show ?thesis by auto
  qed
qed


lemma resolution_loop_append:
  "resolution_loop self (ps @ qs) d st =
     (case resolution_loop self ps d st of
        (Inl e, s) \<Rightarrow> (Inl e, s)
      | (Inr d1, s) \<Rightarrow> resolution_loop self qs d1 s)"
  by (induction ps arbitrary: d st) (auto split: option.splits prod.splits sum.splits simp: Let_def)

lemma resolution_loop_get_provider:
  assumes ok: "state_ok st"
    and loop: "resolution_loop self ps d st = (r, st')"
    and roles: "\<forall>p \<in> set ps. cls_token p = cls_token q \<longrightarrow> hit_role self p = Provider"
  shows "Cache_get_provider q st' = Cache_get_provider q st"
proof -
  have "get_provider_in (heap st') (cls_token q) (cache st)
        = get_provider_in (heap st) (cls_token q) (cache st)"
  proof (rule get_provider_in_cong, clarify)
    fix k c a
    assume c: "(k, c) \<in> set (cache st)" and a: "(cls_token q, a) \<in> set (cont_resolutions c)"
    from ok c have dok: "dict_ok (heap st) (cont_resolutions c)" by (auto simp: state_ok_def)
    then have "map_of (cont_resolutions c) (cls_token q) = Some a"
      using a by (simp add: dict_ok_def)
    from dict_ok_lookup [OF dok this]
    have a': "a < length (heap st)" "res_token (heap st ! a) = cls_token q" by simp_all
    show "res_type (heap st' ! a) = res_type (heap st ! a)"
    proof (rule ccontr)
      assume "res_type (heap st' ! a) \<noteq> res_type (heap st ! a)"
      from resolution_loop_roles [OF ok loop a'(1) this] a'(2) roles
      show False by auto
    qed
  qed
  with resolution_loop_basic [OF loop] show ?thesis by (simp add: Cache_get_provider_def)
qed

subsection \<open>merging the exports of an import\<close>

lemma merge_exports_basic:
  "merge_exports name es d st = (d', st') \<Longrightarrow>
     cache st' = cache st \<and> next_obj st' = next_obj st
     \<and> length (heap st') = length (heap st) \<and> heap_le (heap st) (heap st')"
proof (induction es arbitrary: d st)
  case Nil
  then show ?case by simp
next
  case (Cons e es)
  obtain s a where e: "e = (s, a)" by (cases e)
  let ?st3 = "set_type a Provider (set_from_cache a True (set_origin a name st))"
  from Cons.prems e have "merge_exports name es (AList.update s a d) ?st3 = (d', st')"
    by (simp add: update_conv' Let_def)
  moreover have "heap_le (heap st) (heap ?st3)"
    by (blast intro: heap_le_trans heap_le_set_origin heap_le_set_from_cache heap_le_set_type)
  ultimately show ?case using Cons.IH [of "AList.update s a d" ?st3]
    by (auto intro: heap_le_trans)
qed



lemma merge_exports_dict_ok:
  "merge_exports name es d st = (d', st') \<Longrightarrow> dict_ok (heap st) d \<Longrightarrow>
     \<forall>(k, a) \<in> set es. a < length (heap st) \<and> res_token (heap st ! a) = k \<Longrightarrow>
     dict_ok (heap st') d'"
proof (induction es arbitrary: d st)
  case Nil
  then show ?case by simp
next
  case (Cons e es)
  obtain s b where e: "e = (s, b)" by (cases e)
  let ?st3 = "set_type b Provider (set_from_cache b True (set_origin b name st))"
  from Cons.prems e have m: "merge_exports name es (AList.update s b d) ?st3 = (d', st')"
    by (simp add: update_conv' Let_def)
  have le: "heap_le (heap st) (heap ?st3)"
    by (blast intro: heap_le_trans heap_le_set_origin heap_le_set_from_cache heap_le_set_type)
  from Cons.prems(2,3) e have "dict_ok (heap st) (AList.update s b d)"
    by (auto intro: dict_ok_update)
  then have d1: "dict_ok (heap ?st3) (AList.update s b d)" using le by (rule dict_ok_heap_le)
  have "\<forall>(k, a) \<in> set es. a < length (heap ?st3) \<and> res_token (heap ?st3 ! a) = k"
    using Cons.prems(3) le by (auto simp: heap_le_def)
  from Cons.IH [OF m d1 this] show ?case .
qed

lemma exports_view_ok:
  "dict_ok h d \<Longrightarrow>
     distinct (map fst (exports_view h d))
     \<and> (\<forall>(k, a) \<in> set (exports_view h d). a < length h \<and> res_token (h ! a) = k
                                           \<and> map_of d k = Some a \<and> res_type (h ! a) = Export)"
  by (auto simp: exports_view_def dict_ok_def distinct_map_filter)

subsection \<open>a custom rule for the construction\<close>

lemma resolve_imports_Cons:
  "resolve_imports (B # cs) d st =
     (case obtain_import B st of
        (Inl e, s) \<Rightarrow> (Inl e, s)
      | (Inr c, s) \<Rightarrow>
          (case merge_exports (cc_name (cont_class c))
                  (exports_view (heap s) (cont_resolutions c)) d s of
             (d1, st2) \<Rightarrow> resolve_imports cs d1 st2))"
  by (auto simp: obtain_import_def Let_def split: option.splits prod.splits sum.splits)

lemma Container_init_unfold:
  "Container_init self st =
     (case resolve_imports (cc_imports self) [] st of
        (Inl e, st1) \<Rightarrow> (Inl e, st1)
      | (Inr d, st1) \<Rightarrow>
          (case Container_make_resolution self d st1 of
             (Inl e, st2) \<Rightarrow> (Inl e, st2)
           | (Inr d1, st2) \<Rightarrow> (Inr \<lparr>cont_class = self, cont_resolutions = d1\<rparr>, st2)))"
  by simp

lemma construct_induct [case_names init nil cons]:
  assumes init: "\<And>self st. Q (cc_imports self) [] st \<Longrightarrow> P self st"
    and nil: "\<And>d st. Q [] d st"
    and cons: "\<And>B cs d st.
        (Cache_get_by_token (cc_token B) st = None \<Longrightarrow> P B st) \<Longrightarrow>
        (\<And>c s d1 st2. obtain_import B st = (Inr c, s) \<Longrightarrow>
            merge_exports (cc_name (cont_class c))
              (exports_view (heap s) (cont_resolutions c)) d s = (d1, st2) \<Longrightarrow>
            Q cs d1 st2) \<Longrightarrow>
        Q (B # cs) d st"
  shows "P self0 st0" and "Q cs0 d0 st0"
proof (induction self0 st0 and cs0 d0 st0 rule: Container_init_resolve_imports.induct)
  case (1 self st)
  then show ?case by (rule init)
next
  case (2 d st)
  show ?case by (rule nil)
next
  case (3 B cs d st)
  show ?case
  proof (rule cons)
    assume "Cache_get_by_token (cc_token B) st = None"
    then show "P B st" by (rule "3.IH"(1))
  next
    fix c s d1 st2
    assume o: "obtain_import B st = (Inr c, s)"
      and m: "merge_exports (cc_name (cont_class c))
                (exports_view (heap s) (cont_resolutions c)) d s = (d1, st2)"
    show "Q cs d1 st2"
    proof (cases "Cache_get_by_token (cc_token B) st")
      case None
      with o obtain y where "Container_init B st = (Inr c, y)" "s = Cache_add c y"
        by (auto simp: obtain_import_def split: prod.splits sum.splits)
      with None m show ?thesis
        by (intro "3.IH"(2) [of "Inr c" y c s _ d1 st2]) simp_all
    next
      case (Some x2)
      with o have "x2 = c" "s = st" by (simp_all add: obtain_import_def)
      with Some m show ?thesis
        by (intro "3.IH"(3) [of c _ d1 st2]) simp_all
    qed
  qed
qed

declare Container_init.simps [simp del] resolve_imports.simps(2) [simp del]


lemma obtain_import_cases:
  assumes "obtain_import B st = (r, s)"
  obtains
    (cached) c where "Cache_get_by_token (cc_token B) st = Some c" "r = Inr c" "s = st"
  | (failed) e where "Cache_get_by_token (cc_token B) st = None"
        "Container_init B st = (Inl e, s)" "r = Inl e"
  | (built) c s' where "Cache_get_by_token (cc_token B) st = None"
        "Container_init B st = (Inr c, s')" "r = Inr c" "s = Cache_add c s'"
  using assms by (auto simp: obtain_import_def split: option.splits prod.splits sum.splits)

lemma resolve_imports_ConsE:
  assumes "resolve_imports (B # cs) d st = (r, st')"
  obtains
    (failed) e where "obtain_import B st = (Inl e, st')" "r = Inl e"
  | (merged) c s d1 st2 where "obtain_import B st = (Inr c, s)"
        "merge_exports (cc_name (cont_class c))
           (exports_view (heap s) (cont_resolutions c)) d s = (d1, st2)"
        "resolve_imports cs d1 st2 = (r, st')"
  using assms by (auto simp: resolve_imports_Cons split: prod.splits sum.splits)

lemma Container_init_cases:
  assumes "Container_init self st = (r, st')"
  obtains
    (imports_failed) e where "resolve_imports (cc_imports self) [] st = (Inl e, st')" "r = Inl e"
  | (own_failed) d st1 e where "resolve_imports (cc_imports self) [] st = (Inr d, st1)"
        "Container_make_resolution self d st1 = (Inl e, st')" "r = Inl e"
  | (built) d st1 d1 where "resolve_imports (cc_imports self) [] st = (Inr d, st1)"
        "Container_make_resolution self d st1 = (Inr d1, st')"
        "r = Inr \<lparr>cont_class = self, cont_resolutions = d1\<rparr>"
  using assms by (auto simp: Container_init_unfold split: prod.splits sum.splits)

lemma Container_make_resolution_cases:
  assumes "Container_make_resolution self d st = (r, st')"
  obtains
    (cached) c where "Cache_get_by_token (cc_token self) st = Some c"
        "r = Inr (cont_resolutions c)" "st' = st"
  | (failed) e where "Cache_get_by_token (cc_token self) st = None"
        "resolution_loop self (cc_providers self @ cc_exports self) d st = (Inl e, st')"
        "r = Inl e"
  | (built) d1 st1 where "Cache_get_by_token (cc_token self) st = None"
        "resolution_loop self (cc_providers self @ cc_exports self) d st = (Inr d1, st1)"
        "r = Inr d1" "st' = Cache_add \<lparr>cont_class = self, cont_resolutions = d1\<rparr> st1"
  using assms
  by (auto simp: Container_make_resolution_def split: option.splits prod.splits sum.splits)

subsection \<open>the cache only grows\<close>

lemma cache_le_refl [simp]: "cache_le st st"
  by (simp add: cache_le_def)

lemma cache_le_trans: "cache_le s1 s2 \<Longrightarrow> cache_le s2 s3 \<Longrightarrow> cache_le s1 s3"
  unfolding cache_le_def by (metis (no_types, lifting))

lemma cache_le_same: "cache st' = cache st \<Longrightarrow> cache_le st st'"
  by (simp add: cache_le_def Cache_get_by_token_def)

lemma Cache_add_lookup:
  "Cache_get_by_token t (Cache_add c st) =
     (if t = cc_token (cont_class c) then Some c else Cache_get_by_token t st)"
  by (simp add: Cache_get_by_token_def Cache_add_def update_conv')

lemma cache_le_Cache_add:
  "(\<And>c0. Cache_get_by_token (cc_token (cont_class c)) st = Some c0
         \<Longrightarrow> cont_resolutions c0 = cont_resolutions c)
   \<Longrightarrow> cache_le st (Cache_add c st)"
  by (auto simp: cache_le_def Cache_add_lookup)

lemma Cache_add_frame [simp]:
  "heap (Cache_add c st) = heap st" "next_obj (Cache_add c st) = next_obj st"
  by (simp_all add: Cache_add_def)

lemma Container_make_resolution_cache:
  assumes "Container_make_resolution self d st = (r, st')"
  shows "cache_le st st'
       \<and> (\<forall>d1. r = Inr d1 \<longrightarrow>
            (\<exists>c'. Cache_get_by_token (cc_token self) st' = Some c'
                   \<and> cont_resolutions c' = d1))"
  using assms
proof (cases rule: Container_make_resolution_cases)
  case (cached c)
  then show ?thesis by simp
next
  case (failed e)
  from resolution_loop_basic [OF failed(2)] failed(3) show ?thesis
    by (simp add: cache_le_same)
next
  case (built d1 st1)
  from resolution_loop_basic [OF built(2)] have c1: "cache st1 = cache st" by simp
  then have "Cache_get_by_token (cc_token self) st1 = None"
    using built(1) by (simp add: Cache_get_by_token_def)
  then have "cache_le st1 st'" using built(4) by (auto intro!: cache_le_Cache_add)
  with c1 built show ?thesis
    by (auto simp: Cache_add_lookup intro: cache_le_trans [OF cache_le_same])
qed

lemma construct_cache:
  "\<forall>r st'. Container_init self st = (r, st') \<longrightarrow>
      cache_le st st'
      \<and> (\<forall>c. r = Inr c \<longrightarrow> cont_class c = self
            \<and> (\<exists>c'. Cache_get_by_token (cc_token self) st' = Some c'
                     \<and> cont_resolutions c' = cont_resolutions c))"
  "\<forall>r st'. resolve_imports cs d st = (r, st') \<longrightarrow>
      cache_le st st'
      \<and> (\<forall>d'. r = Inr d' \<longrightarrow> (\<forall>B \<in> set cs. Cache_get_by_token (cc_token B) st' \<noteq> None))"
proof (induction self st and cs d st rule: construct_induct)
  case (init self st)
  show ?case
  proof (intro allI impI)
    fix r st' assume "Container_init self st = (r, st')"
    then show "cache_le st st'
      \<and> (\<forall>c. r = Inr c \<longrightarrow> cont_class c = self
            \<and> (\<exists>c'. Cache_get_by_token (cc_token self) st' = Some c'
                     \<and> cont_resolutions c' = cont_resolutions c))"
    proof (cases rule: Container_init_cases)
      case (imports_failed e)
      with init show ?thesis by simp
    next
      case (own_failed d st1 e)
      from init own_failed(1) have "cache_le st st1" by simp
      with Container_make_resolution_cache [OF own_failed(2)] own_failed(3)
      show ?thesis by (auto intro: cache_le_trans)
    next
      case (built d st1 d1)
      from init built(1) have "cache_le st st1" by simp
      with Container_make_resolution_cache [OF built(2)] built(3)
      show ?thesis by (auto intro: cache_le_trans)
    qed
  qed
next
  case (nil d st)
  then show ?case by simp
next
  case (cons B cs d st)
  show ?case
  proof (intro allI impI)
    fix r st' assume "resolve_imports (B # cs) d st = (r, st')"
    then show "cache_le st st'
      \<and> (\<forall>d'. r = Inr d' \<longrightarrow> (\<forall>B \<in> set (B # cs). Cache_get_by_token (cc_token B) st' \<noteq> None))"
    proof (cases rule: resolve_imports_ConsE)
      case (failed e)
      from failed(1) have "cache_le st st'"
      proof (cases rule: obtain_import_cases)
        case (failed e)
        with cons.IH(1) show ?thesis by simp
      qed simp_all
      with failed show ?thesis by simp
    next
      case (merged c s d1 st2)
      from merged(1) have o: "cache_le st s
          \<and> (\<exists>c'. Cache_get_by_token (cc_token B) s = Some c')"
      proof (cases rule: obtain_import_cases)
        case (cached c)
        then show ?thesis by simp
      next
        case (built c' s')
        from cons.IH(1) [OF built(1)] built(2)
        have 1: "cache_le st s'" and 2: "cont_class c' = B"
          and 3: "\<exists>c''. Cache_get_by_token (cc_token B) s' = Some c''
                       \<and> cont_resolutions c'' = cont_resolutions c'"
          by auto
        from 2 3 have "cache_le s' (Cache_add c' s')"
          by (auto intro!: cache_le_Cache_add)
        with 1 built(4) 2 show ?thesis
          by (auto simp: Cache_add_lookup intro: cache_le_trans)
      qed simp
      from merge_exports_basic [OF merged(2)] have "cache_le s st2"
        by (simp add: cache_le_same)
      moreover from cons.IH(2) [OF merged(1,2)] merged(3)
      have r: "cache_le st2 st'"
        "\<forall>d'. r = Inr d' \<longrightarrow> (\<forall>B \<in> set cs. Cache_get_by_token (cc_token B) st' \<noteq> None)"
        by auto
      ultimately have le: "cache_le s st'" by (blast intro: cache_le_trans)
      with o have "Cache_get_by_token (cc_token B) st' \<noteq> None"
        unfolding cache_le_def by fastforce
      with o le r show ?thesis by (auto intro: cache_le_trans)
    qed
  qed
qed


subsection \<open>construction keeps the state well formed\<close>

lemma Container_make_resolution_ok:
  assumes "state_ok st" "dict_ok (heap st) d"
    and "Container_make_resolution self d st = (r, st')"
  shows "state_ok st' \<and> heap_le (heap st) (heap st')
       \<and> (\<forall>d1. r = Inr d1 \<longrightarrow> dict_ok (heap st') d1)"
  using assms(3)
proof (cases rule: Container_make_resolution_cases)
  case (cached c)
  with assms(1) state_ok_cached [OF assms(1) cached(1)] show ?thesis by simp
next
  case (failed e)
  with resolution_loop_basic [OF failed(2)] resolution_loop_state_ok [OF assms(1) failed(2)]
  show ?thesis by simp
next
  case (built d1 st1)
  from resolution_loop_dict_ok [OF assms(1,2) built(2)] have "dict_ok (heap st1) d1" .
  moreover from resolution_loop_state_ok [OF assms(1) built(2)] have "state_ok st1" .
  ultimately have "state_ok st'" using built(4) by (simp add: state_ok_Cache_add)
  with resolution_loop_basic [OF built(2)] \<open>dict_ok (heap st1) d1\<close> built(3,4)
  show ?thesis by simp
qed

lemma merge_exports_ok:
  assumes "state_ok s" "dict_ok (heap s) (cont_resolutions c)" "dict_ok (heap s) d"
    and "merge_exports n (exports_view (heap s) (cont_resolutions c)) d s = (d1, st2)"
  shows "state_ok st2 \<and> dict_ok (heap st2) d1 \<and> heap_le (heap s) (heap st2)"
proof -
  from merge_exports_basic [OF assms(4)]
  have b: "cache st2 = cache s" "heap_le (heap s) (heap st2)" by simp_all
  from exports_view_ok [OF assms(2)]
  have "\<forall>(k, a) \<in> set (exports_view (heap s) (cont_resolutions c)).
          a < length (heap s) \<and> res_token (heap s ! a) = k"
    by auto
  from merge_exports_dict_ok [OF assms(4,3) this] b state_ok_heap_le [OF assms(1) b]
  show ?thesis by simp
qed

lemma construct_ok:
  "state_ok st \<longrightarrow>
     (\<forall>r st'. Container_init self st = (r, st') \<longrightarrow>
        state_ok st' \<and> heap_le (heap st) (heap st')
        \<and> (\<forall>c. r = Inr c \<longrightarrow> dict_ok (heap st') (cont_resolutions c)))"
  "state_ok st \<and> dict_ok (heap st) d \<longrightarrow>
     (\<forall>r st'. resolve_imports cs d st = (r, st') \<longrightarrow>
        state_ok st' \<and> heap_le (heap st) (heap st')
        \<and> (\<forall>d'. r = Inr d' \<longrightarrow> dict_ok (heap st') d'))"
proof (induction self st and cs d st rule: construct_induct)
  case (init self st)
  show ?case
  proof (intro allI impI)
    fix r st' assume ok: "state_ok st" and "Container_init self st = (r, st')"
    from this(2) show "state_ok st' \<and> heap_le (heap st) (heap st')
        \<and> (\<forall>c. r = Inr c \<longrightarrow> dict_ok (heap st') (cont_resolutions c))"
    proof (cases rule: Container_init_cases)
      case (imports_failed e)
      with init ok show ?thesis by simp
    next
      case (own_failed d st1 e)
      from init ok own_failed(1)
      have 1: "state_ok st1" "heap_le (heap st) (heap st1)" "dict_ok (heap st1) d" by auto
      from Container_make_resolution_ok [OF 1(1,3) own_failed(2)] 1(2) own_failed(3)
      show ?thesis by (auto intro: heap_le_trans)
    next
      case (built d st1 d1)
      from init ok built(1)
      have 1: "state_ok st1" "heap_le (heap st) (heap st1)" "dict_ok (heap st1) d" by auto
      from Container_make_resolution_ok [OF 1(1,3) built(2)] 1(2) built(3)
      show ?thesis by (auto intro: heap_le_trans)
    qed
  qed
next
  case (nil d st)
  then show ?case by simp
next
  case (cons B cs d st)
  show ?case
  proof (intro allI impI, elim conjE)
    fix r st' assume ok: "state_ok st" and dok: "dict_ok (heap st) d"
      and "resolve_imports (B # cs) d st = (r, st')"
    from this(3) show "state_ok st' \<and> heap_le (heap st) (heap st')
        \<and> (\<forall>d'. r = Inr d' \<longrightarrow> dict_ok (heap st') d')"
    proof (cases rule: resolve_imports_ConsE)
      case (failed e)
      from failed(1) show ?thesis
      proof (cases rule: obtain_import_cases)
        case (failed e')
        with cons.IH(1) ok \<open>r = Inl e\<close> show ?thesis by simp
      qed simp_all
    next
      case (merged c s d1 st2)
      from merged(1)
      have o: "state_ok s \<and> heap_le (heap st) (heap s) \<and> dict_ok (heap s) (cont_resolutions c)"
      proof (cases rule: obtain_import_cases)
        case (cached c')
        with ok state_ok_cached [OF ok cached(1)] show ?thesis by simp
      next
        case (built c' s')
        from cons.IH(1) [OF built(1)] ok built(2)
        have "state_ok s'" "heap_le (heap st) (heap s')" "dict_ok (heap s') (cont_resolutions c')"
          by auto
        with built(3,4) show ?thesis by (simp add: state_ok_Cache_add)
      qed simp
      then have "dict_ok (heap s) d" using dok by (blast intro: dict_ok_heap_le)
      from merge_exports_ok [OF _ _ this merged(2)] o
      have m: "state_ok st2" "dict_ok (heap st2) d1" "heap_le (heap s) (heap st2)" by simp_all
      from cons.IH(2) [OF merged(1,2)] m merged(3)
      have "state_ok st'" "heap_le (heap st2) (heap st')"
        "\<forall>d'. r = Inr d' \<longrightarrow> dict_ok (heap st') d'"
        by auto
      with o m show ?thesis by (blast intro: heap_le_trans)
    qed
  qed
qed

lemma Container_init_state_ok:
  "state_ok st \<Longrightarrow> Container_init self st = (r, st') \<Longrightarrow> state_ok st'"
  using construct_ok(1) by blast




subsection \<open>every record holds an existing instance\<close>

lemma instances_ok_init [simp]: "instances_ok init_state"
  by (simp add: instances_ok_def init_state_def)

lemma instances_ok_mono:
  "instances_ok st \<Longrightarrow> heap st' = heap st \<Longrightarrow> next_obj st \<le> next_obj st' \<Longrightarrow> instances_ok st'"
  by (fastforce simp: instances_ok_def)

lemma instances_ok_assign:
  assumes "instances_ok st" "next_obj st' = next_obj st"
    and "heap st' = (heap st)[a := g (heap st ! a)]"
    and "\<And>x. res_instance (g x) = res_instance x"
  shows "instances_ok st'"
proof (cases "a < length (heap st)")
  case True
  have "inst_id (res_instance r) < next_obj st" if "r \<in> set ((heap st)[a := g (heap st ! a)])" for r
  proof -
    from that set_update_subset_insert have "r = g (heap st ! a) \<or> r \<in> set (heap st)" by fastforce
    with assms(1,4) True show ?thesis by (auto simp: instances_ok_def)
  qed
  with assms(2,3) show ?thesis by (simp add: instances_ok_def)
next
  case False
  with assms show ?thesis by (simp add: instances_ok_def list_update_beyond)
qed

lemma instances_ok_set_origin: "instances_ok st \<Longrightarrow> instances_ok (set_origin a n st)"
  by (rule instances_ok_assign [where g = "\<lambda>x. x\<lparr>res_origin := Some n\<rparr>"])
     (simp_all add: set_origin_def)

lemma instances_ok_set_from_cache: "instances_ok st \<Longrightarrow> instances_ok (set_from_cache a v st)"
  by (rule instances_ok_assign [where g = "\<lambda>x. x\<lparr>res_from_cache := v\<rparr>"])
     (simp_all add: set_from_cache_def)

lemma instances_ok_set_type: "instances_ok st \<Longrightarrow> instances_ok (set_type a r st)"
  by (rule instances_ok_assign [where g = "\<lambda>x. x\<lparr>res_type := r\<rparr>"])
     (simp_all add: set_type_def)

lemma instances_ok_Cache_add: "instances_ok st \<Longrightarrow> instances_ok (Cache_add c st)"
  by (simp add: instances_ok_def)

lemma Container_get_next:
  "Container_get self d cls st = (r, st') \<Longrightarrow> next_obj st \<le> next_obj st'"
  by (auto simp: Container_get_def instantiate_def split: option.splits if_splits)

lemma resolve_params_next:
  "resolve_params self d hints args deps st = (r, st') \<Longrightarrow> next_obj st \<le> next_obj st'"
proof (induction hints arbitrary: args deps st)
  case Nil
  then show ?case by auto
next
  case (Cons h hints)
  obtain param ty where h: "h = (param, ty)" by (cases h)
  show ?case
  proof (cases "param = ''return''")
    case True
    with Cons h show ?thesis by simp
  next
    case False
    obtain r1 st1 where g: "Container_get self d ty st = (r1, st1)" by (cases "Container_get self d ty st")
    from Container_get_next [OF g] have f: "next_obj st \<le> next_obj st1" .
    show ?thesis
    proof (cases r1)
      case (Inl e)
      with Cons.prems h False g f show ?thesis by auto
    next
      case (Inr dep)
      with Cons.prems h False g
      have "resolve_params self d hints (AList.update param dep args)
              (deps @ [''<'' @ param @ '', '' @ inst_class_name dep @ ''>'']) st1 = (r, st')"
        by simp
      from Cons.IH [OF this] f show ?thesis by simp
    qed
  qed
qed

lemma Container_resolve_next:
  "Container_resolve self d cls st = (r, st') \<Longrightarrow>
     next_obj st \<le> next_obj st' \<and> (\<forall>i ds. r = Inr (i, ds) \<longrightarrow> inst_id i < next_obj st')"
  by (auto simp: Container_resolve_def instantiate_def
           split: prod.splits sum.splits if_splits dest!: resolve_params_next)

lemma resolution_loop_instances:
  "instances_ok st \<Longrightarrow> resolution_loop self ps d st = (r, st') \<Longrightarrow> instances_ok st'"
proof (induction ps arbitrary: d st)
  case Nil
  then show ?case by simp
next
  case (Cons p ps)
  show ?case
  proof (cases "cls_has_token p")
    case False
    with Cons.prems show ?thesis by auto
  next
    case tok: True
    show ?thesis
    proof (cases "Cache_get_provider p st")
      case (Some a)
      let ?st2 = "set_type a (hit_role self p) (set_from_cache a True st)"
      from Cons.prems(2) Some tok
      have "resolution_loop self ps (AList.update (cls_token p) a d) ?st2 = (r, st')"
        by (simp add: update_conv' hit_role_def Let_def)
      moreover have "instances_ok ?st2"
        using Cons.prems(1) by (intro instances_ok_set_type instances_ok_set_from_cache)
      ultimately show ?thesis using Cons.IH by blast
    next
      case None
      obtain r1 st1 where res: "Container_resolve self d p st = (r1, st1)"
        by (cases "Container_resolve self d p st")
      from Container_resolve_frame [OF res] Container_resolve_next [OF res]
      have f: "heap st1 = heap st" "next_obj st \<le> next_obj st1"
        and i: "\<And>i ds. r1 = Inr (i, ds) \<Longrightarrow> inst_id i < next_obj st1"
        by simp_all
      from instances_ok_mono [OF Cons.prems(1) f] have ok1: "instances_ok st1" .
      show ?thesis
      proof (cases r1)
        case (Inl e)
        with Cons.prems(2) None res tok ok1 show ?thesis by auto
      next
        case (Inr idp)
        obtain i ds where idp: "idp = (i, ds)" by (cases idp)
        let ?st2 = "snd (new_resolution (cls_token p) (miss_role self p) i ds st1)"
        from Cons.prems(2) None res Inr idp tok
        have "resolution_loop self ps (AList.update (cls_token p) (length (heap st1)) d) ?st2
                = (r, st')"
          by (auto simp: new_resolution_def miss_role_def Let_def split: if_splits)
        moreover have "instances_ok ?st2"
          using ok1 i [of i ds] Inr idp by (auto simp: new_resolution_def instances_ok_def)
        ultimately show ?thesis using Cons.IH by blast
      qed
    qed
  qed
qed

lemma merge_exports_instances:
  "instances_ok st \<Longrightarrow> merge_exports name es d st = (d', st') \<Longrightarrow> instances_ok st'"
proof (induction es arbitrary: d st)
  case Nil
  then show ?case by simp
next
  case (Cons e es)
  obtain s a where e: "e = (s, a)" by (cases e)
  let ?st3 = "set_type a Provider (set_from_cache a True (set_origin a name st))"
  from Cons.prems e have "merge_exports name es (AList.update s a d) ?st3 = (d', st')"
    by (simp add: update_conv' Let_def)
  moreover have "instances_ok ?st3"
    using Cons.prems(1)
    by (intro instances_ok_set_type instances_ok_set_from_cache instances_ok_set_origin)
  ultimately show ?case using Cons.IH by blast
qed

lemma Container_make_resolution_instances:
  "instances_ok st \<Longrightarrow> Container_make_resolution self d st = (r, st') \<Longrightarrow> instances_ok st'"
  by (erule Container_make_resolution_cases)
     (auto dest: resolution_loop_instances intro: instances_ok_Cache_add)

lemma construct_instances:
  "instances_ok st \<longrightarrow> (\<forall>r st'. Container_init self st = (r, st') \<longrightarrow> instances_ok st')"
  "instances_ok st \<longrightarrow> (\<forall>r st'. resolve_imports cs d st = (r, st') \<longrightarrow> instances_ok st')"
proof (induction self st and cs d st rule: construct_induct)
  case (init self st)
  show ?case
  proof (intro allI impI)
    fix r st' assume ok: "instances_ok st" and "Container_init self st = (r, st')"
    from this(2) show "instances_ok st'"
    proof (cases rule: Container_init_cases)
      case (imports_failed e)
      with init ok show ?thesis by blast
    next
      case (own_failed d st1 e)
      with init ok have "instances_ok st1" by blast
      with own_failed(2) show ?thesis by (blast intro: Container_make_resolution_instances)
    next
      case (built d st1 d1)
      with init ok have "instances_ok st1" by blast
      with built(2) show ?thesis by (blast intro: Container_make_resolution_instances)
    qed
  qed
next
  case (nil d st)
  then show ?case by simp
next
  case (cons B cs d st)
  show ?case
  proof (intro allI impI)
    fix r st' assume ok: "instances_ok st" and "resolve_imports (B # cs) d st = (r, st')"
    from this(2) show "instances_ok st'"
    proof (cases rule: resolve_imports_ConsE)
      case (failed e)
      from failed(1) show ?thesis
      proof (cases rule: obtain_import_cases)
        case (failed e')
        with cons.IH(1) ok show ?thesis by blast
      qed simp_all
    next
      case (merged c s d1 st2)
      from merged(1) have "instances_ok s"
      proof (cases rule: obtain_import_cases)
        case (cached c')
        with ok show ?thesis by simp
      next
        case (built c' s')
        with cons.IH(1) ok have "instances_ok s'" by blast
        with built(4) show ?thesis by (simp add: instances_ok_Cache_add)
      qed simp
      with merged(2) have "instances_ok st2" by (blast intro: merge_exports_instances)
      with cons.IH(2) [OF merged(1,2)] merged(3) show ?thesis by blast
    qed
  qed
qed

subsection \<open>what the loop leaves under the token of one class\<close>

lemma resolution_loop_entry:
  assumes ok: "state_ok st"
    and dist: "distinct (map cls_token ps)"
    and mem: "p \<in> set ps"
    and loop: "resolution_loop self ps d st = (Inr d', st')"
  shows "\<exists>a. map_of d' (cls_token p) = Some a \<and> a < length (heap st') \<and>
          (case Cache_get_provider p st of
             Some b \<Rightarrow> a = b \<and> b < length (heap st)
               \<and> heap st' ! a = (heap st ! b)\<lparr>res_from_cache := True,
                                              res_type := hit_role self p\<rparr>
           | None \<Rightarrow> length (heap st) \<le> a
               \<and> res_token (heap st' ! a) = cls_token p
               \<and> res_type (heap st' ! a) = miss_role self p
               \<and> res_origin (heap st' ! a) = None
               \<and> \<not> res_from_cache (heap st' ! a))"
proof -
  from mem obtain ps1 ps2 where ps: "ps = ps1 @ p # ps2" by (auto dest: split_list)
  with dist have n1: "cls_token p \<notin> cls_token ` set ps1" and n2: "cls_token p \<notin> cls_token ` set ps2"
    by auto
  from loop ps obtain dA sA where
    l1: "resolution_loop self ps1 d st = (Inr dA, sA)" and
    l2: "resolution_loop self (p # ps2) dA sA = (Inr d', st')"
    by (auto simp: resolution_loop_append split: prod.splits sum.splits)
  from resolution_loop_state_ok [OF ok l1] have okA: "state_ok sA" .
  from resolution_loop_basic [OF l1] have leA: "heap_le (heap st) (heap sA)" by simp
  from n1 have "\<forall>q \<in> set ps1. cls_token q = cls_token p \<longrightarrow> hit_role self q = Provider"
    by (metis imageI)
  from resolution_loop_get_provider [OF ok l1 this]
  have gp: "Cache_get_provider p sA = Cache_get_provider p st" .
  from l2 show ?thesis
  proof (cases rule: resolution_loop_ConsE)
    case (fail e)
    then show ?thesis by simp
  next
    case (hit b st2)
    from hit(1) gp have g: "Cache_get_provider p st = Some b" by simp
    from Cache_get_provider_Some [OF ok g]
    have b: "b < length (heap st)" "res_token (heap st ! b) = cls_token p" by simp_all
    from resolution_loop_frame [OF ok l1 b(1)] b(2) n1
    have sameA: "heap sA ! b = heap st ! b" by simp
    from leA b(1) have bA: "b < length (heap sA)" by (simp add: heap_le_def)
    have le2: "heap_le (heap sA) (heap st2)" using hit(4) by (simp add: heap_le_hit)
    have ok2: "state_ok st2" using okA hit(3) le2 by (rule state_ok_heap_le)
    have b2: "b < length (heap st2)" using hit(4) bA by simp
    have rec2: "heap st2 ! b = (heap st ! b)\<lparr>res_from_cache := True,
                                             res_type := hit_role self p\<rparr>"
      using hit(4) bA sameA by simp
    then have "res_token (heap st2 ! b) = cls_token p" using b(2) by simp
    with resolution_loop_frame [OF ok2 hit(2) b2] n2
    have "heap st' ! b = heap st2 ! b" by simp
    moreover from resolution_loop_map [OF hit(2) n2]
    have "map_of d' (cls_token p) = Some b" by (simp add: update_conv')
    moreover from resolution_loop_basic [OF hit(2)] b2 have "b < length (heap st')"
      by (simp add: heap_le_def)
    ultimately show ?thesis using g rec2 b(1) by simp
  next
    case (miss st2 i ds)
    from miss(1) gp have g: "Cache_get_provider p st = None" by simp
    let ?a = "length (heap sA)"
    have le2: "heap_le (heap sA) (heap st2)" using miss(4) by simp
    have ok2: "state_ok st2" using okA miss(3) le2 by (rule state_ok_heap_le)
    have a2: "?a < length (heap st2)" using miss(4) by simp
    have rec2: "heap st2 ! ?a = \<lparr>res_token = cls_token p, res_type = miss_role self p,
                  res_instance = i, res_deps = ds, res_origin = None, res_from_cache = False\<rparr>"
      using miss(4) by simp
    then have "res_token (heap st2 ! ?a) = cls_token p" by simp
    with resolution_loop_frame [OF ok2 miss(2) a2] n2
    have "heap st' ! ?a = heap st2 ! ?a" by simp
    moreover from resolution_loop_map [OF miss(2) n2]
    have "map_of d' (cls_token p) = Some ?a" by (simp add: update_conv')
    moreover from resolution_loop_basic [OF miss(2)] a2 have "?a < length (heap st')"
      by (simp add: heap_le_def)
    moreover from leA have "length (heap st) \<le> ?a" by (simp add: heap_le_def)
    ultimately show ?thesis using g rec2 by simp
  qed
qed


lemma alist_by_keys:
  assumes "distinct (map fst d)"
  shows "map (\<lambda>k. (k, the (map_of d k))) (map fst d) = d"
proof -
  have "map ((\<lambda>k. (k, the (map_of d k))) \<circ> fst) d = d"
    by (rule map_idI) (auto simp: assms)
  then show ?thesis by simp
qed

subsection \<open>one token through a construction\<close>


lemma import_trees_simps [simp]:
  "import_trees [] = []"
  "import_trees (B # cs) = import_tree B @ import_trees cs"
  "import_trees (bs @ cs) = import_trees bs @ import_trees cs"
  by (simp_all add: import_trees_def)

lemma same_records_refl [simp]: "same_records S st st"
  by (simp add: same_records_def)












subsection \<open>the tokens a construction adds to the cache\<close>






subsection \<open>classes with distinct tokens\<close>

lemma distinct_tokens_not_both:
  assumes "distinct (map cls_token (ps @ es))" "inj_on cls_id (set (ps @ es))"
  shows "p \<in> set ps \<Longrightarrow> \<not> cls_mem p es" and "x \<in> set es \<Longrightarrow> \<not> cls_mem x ps"
proof -
  have disj: "set ps \<inter> set es = {}" using assms(1) by auto
  show "\<not> cls_mem p es" if "p \<in> set ps"
  proof
    assume "cls_mem p es"
    then obtain q where "q \<in> set es" "cls_id q = cls_id p" by (auto simp: cls_mem_def)
    with that assms(2) have "q = p" by (auto dest: inj_onD)
    with \<open>q \<in> set es\<close> that disj show False by auto
  qed
  show "\<not> cls_mem x ps" if "x \<in> set es"
  proof
    assume "cls_mem x ps"
    then obtain q where "q \<in> set ps" "cls_id q = cls_id x" by (auto simp: cls_mem_def)
    with that assms(2) have "q = x" by (auto dest: inj_onD)
    with \<open>q \<in> set ps\<close> that disj show False by auto
  qed
qed

section \<open>The example states are well formed\<close>

lemma state_ok_adder_built: "state_ok adder_built"
  unfolding adder_built_def
  by (rule Container_init_state_ok [OF state_ok_init surjective_pairing])

lemma state_ok_provider_built: "state_ok provider_built"
  unfolding provider_built_def
  by (rule Container_init_state_ok [OF state_ok_init surjective_pairing])

section \<open>Import merge\<close>






text \<open>
  C5. The code does not do what the claim says. After \<open>AdderContainer\<close> is built its own
  entry for \<open>AdderService\<close> has role export, no origin and \<^verbatim>\<open>from_cache\<close> unset.
  Constructing \<open>Importer\<close>, which imports it, leaves the cached \<open>AdderContainer\<close> with
  the same map, but the entry now has role provider, origin \<open>AdderContainer\<close> and
  \<^verbatim>\<open>from_cache\<close> set: the importer stores the imported container's record itself, not
  a copy, and assigns to it. From then on the \<^verbatim>\<open>exports\<close> view of \<open>AdderContainer\<close> is
  empty, and \<open>SecondImporter\<close>, which imports it too, gets no entry.
\<close>

theorem import_merge_changes_imported_container:
  "Cache_get_by_token ''AdderContainer'' adder_built = Some adder_cached
   \<and> map_of (cont_resolutions adder_cached) ''AdderService'' = Some 1
   \<and> exports_view (heap adder_built) (cont_resolutions adder_cached) = [(''AdderService'', 1)]
   \<and> res_type (heap adder_built ! 1) = Export
   \<and> res_origin (heap adder_built ! 1) = None
   \<and> res_from_cache (heap adder_built ! 1) = False
   \<and> cc_imports Importer = [AdderContainer]
   \<and> fst (Container_init Importer adder_built)
       = Inr \<lparr>cont_class = Importer, cont_resolutions = [(''AdderService'', 1)]\<rparr>
   \<and> Cache_get_by_token ''AdderContainer'' (snd (Container_init Importer adder_built))
       = Some adder_cached
   \<and> res_type (heap (snd (Container_init Importer adder_built)) ! 1) = Provider
   \<and> res_origin (heap (snd (Container_init Importer adder_built)) ! 1) = Some ''AdderContainer''
   \<and> res_from_cache (heap (snd (Container_init Importer adder_built)) ! 1) = True
   \<and> exports_view (heap (snd (Container_init Importer adder_built)))
       (cont_resolutions adder_cached) = []
   \<and> cc_imports SecondImporter = [AdderContainer]
   \<and> fst (Container_init SecondImporter (snd (Container_init Importer adder_built)))
       = Inr \<lparr>cont_class = SecondImporter, cont_resolutions = []\<rparr>"
  by code_simp

section \<open>Constructing a container type again\<close>

lemma resolve_imports_all_cached:
  "\<forall>B \<in> set cs. Cache_get_by_token (cc_token B) st \<noteq> None \<Longrightarrow>
     \<exists>d' st'. resolve_imports cs d st = (Inr d', st') \<and> cache st' = cache st
       \<and> next_obj st' = next_obj st \<and> length (heap st') = length (heap st)"
proof (induction cs arbitrary: d st)
  case Nil
  then show ?case by simp
next
  case (Cons B cs)
  from Cons.prems obtain c where c: "Cache_get_by_token (cc_token B) st = Some c" by auto
  then have o: "obtain_import B st = (Inr c, st)" by (simp add: obtain_import_def)
  obtain d1 st2 where m: "merge_exports (cc_name (cont_class c))
                            (exports_view (heap st) (cont_resolutions c)) d st = (d1, st2)"
    by (cases "merge_exports (cc_name (cont_class c))
                 (exports_view (heap st) (cont_resolutions c)) d st")
  from merge_exports_basic [OF m]
  have b: "cache st2 = cache st" "next_obj st2 = next_obj st"
          "length (heap st2) = length (heap st)"
    by simp_all
  from Cons.prems b(1) have "\<forall>B \<in> set cs. Cache_get_by_token (cc_token B) st2 \<noteq> None"
    by (simp add: Cache_get_by_token_def)
  from Cons.IH [OF this, of d1] o m b show ?case
    by (auto simp: resolve_imports_Cons)
qed

text \<open>
  C2. Let the token of \<open>A\<close> be in the cache. Whenever the construction of \<open>A\<close> returns,
  the new instance has the resolution map of the cached container; the state the
  construction leaves is the state the import step left, so the loop over the providers
  and exports built nothing, touched no record and added nothing to the cache; the cache
  still holds that map under the token; and any class with the same token and imports,
  whatever its providers and exports, gets the same map and leaves the same state. When
  moreover the imports of \<open>A\<close> are in the cache, as they are after a first construction
  of \<open>A\<close>, the construction does return, and it creates no instance, allocates no
  record and leaves the cache as it was.
\<close>

theorem second_construction_adopts_cached_map:
  assumes "Cache_get_by_token (cc_token A) st = Some c0"
  shows "(\<forall>a st'. Container_init A st = (Inr a, st') \<longrightarrow>
            cont_resolutions a = cont_resolutions c0
          \<and> (\<exists>d. resolve_imports (cc_imports A) [] st = (Inr d, st'))
          \<and> (\<exists>c'. Cache_get_by_token (cc_token A) st' = Some c'
                   \<and> cont_resolutions c' = cont_resolutions c0)
          \<and> (\<forall>A'. cc_token A' = cc_token A \<and> cc_imports A' = cc_imports A
                \<longrightarrow> (\<exists>a'. Container_init A' st = (Inr a', st')
                          \<and> cont_resolutions a' = cont_resolutions a)))
       \<and> ((\<forall>B \<in> set (cc_imports A). Cache_get_by_token (cc_token B) st \<noteq> None) \<longrightarrow>
            (\<exists>a st'. Container_init A st = (Inr a, st') \<and> cache st' = cache st
               \<and> next_obj st' = next_obj st \<and> length (heap st') = length (heap st)))"
proof (intro conjI allI impI)
  fix a st' assume init: "Container_init A st = (Inr a, st')"
  from init have "cont_resolutions a = cont_resolutions c0
          \<and> (\<exists>d. resolve_imports (cc_imports A) [] st = (Inr d, st'))
          \<and> (\<exists>c'. Cache_get_by_token (cc_token A) st' = Some c'
                   \<and> cont_resolutions c' = cont_resolutions c0)
          \<and> (\<forall>A'. cc_token A' = cc_token A \<and> cc_imports A' = cc_imports A
                \<longrightarrow> (\<exists>a'. Container_init A' st = (Inr a', st')
                          \<and> cont_resolutions a' = cont_resolutions a))"
  proof (cases rule: Container_init_cases)
    case (built d st1 d1)
    from construct_cache(2) built(1) have "cache_le st st1" by blast
    with assms obtain c' where c': "Cache_get_by_token (cc_token A) st1 = Some c'"
        "cont_resolutions c' = cont_resolutions c0"
      unfolding cache_le_def by blast
    with built(2) have eq: "d1 = cont_resolutions c0" "st' = st1"
      by (simp_all add: Container_make_resolution_def)
    have "\<exists>a'. Container_init A' st = (Inr a', st') \<and> cont_resolutions a' = cont_resolutions a"
      if "cc_token A' = cc_token A \<and> cc_imports A' = cc_imports A" for A'
      using that built(1,3) c' eq
      by (simp add: Container_init_unfold Container_make_resolution_def)
    with built c' eq show ?thesis by auto
  qed simp_all
  then show "cont_resolutions a = cont_resolutions c0"
    and "\<exists>d. resolve_imports (cc_imports A) [] st = (Inr d, st')"
    and "\<exists>c'. Cache_get_by_token (cc_token A) st' = Some c'
              \<and> cont_resolutions c' = cont_resolutions c0"
    and "\<And>A'. cc_token A' = cc_token A \<and> cc_imports A' = cc_imports A
           \<Longrightarrow> \<exists>a'. Container_init A' st = (Inr a', st')
                     \<and> cont_resolutions a' = cont_resolutions a"
    by blast+
next
  assume "\<forall>B \<in> set (cc_imports A). Cache_get_by_token (cc_token B) st \<noteq> None"
  from resolve_imports_all_cached [OF this, of "[]"] obtain d st1 where
    r: "resolve_imports (cc_imports A) [] st = (Inr d, st1)" "cache st1 = cache st"
       "next_obj st1 = next_obj st" "length (heap st1) = length (heap st)"
    by blast
  from assms r(2) have "Cache_get_by_token (cc_token A) st1 = Some c0"
    by (simp add: Cache_get_by_token_def)
  with r show "\<exists>a st'. Container_init A st = (Inr a, st') \<and> cache st' = cache st
               \<and> next_obj st' = next_obj st \<and> length (heap st') = length (heap st)"
    by (simp add: Container_init_unfold Container_make_resolution_def)
qed

theorem second_construction_adopts_cached_map_witness:
  "Cache_get_by_token (cc_token AdderContainerRedeclared) adder_built = Some adder_cached
   \<and> Container_init AdderContainerRedeclared adder_built
       = (Inr \<lparr>cont_class = AdderContainerRedeclared,
               cont_resolutions = [(''AdderPort'', 0), (''AdderService'', 1)]\<rparr>, adder_built)
   \<and> cont_resolutions \<lparr>cont_class = AdderContainerRedeclared,
               cont_resolutions = [(''AdderPort'', 0), (''AdderService'', 1)]\<rparr>
       = cont_resolutions adder_cached
   \<and> (\<exists>d. resolve_imports (cc_imports AdderContainerRedeclared) [] adder_built
            = (Inr d, adder_built))
   \<and> Cache_get_by_token (cc_token Importer) importer_built
       = Some \<lparr>cont_class = Importer, cont_resolutions = [(''AdderService'', 1)]\<rparr>
   \<and> cc_imports Importer = [AdderContainer]
   \<and> Cache_get_by_token (cc_token AdderContainer) importer_built \<noteq> None
   \<and> (\<exists>a st'. Container_init Importer importer_built = (Inr a, st')
         \<and> cache st' = cache importer_built \<and> next_obj st' = next_obj importer_built
         \<and> length (heap st') = length (heap importer_built))"
proof -
  have h1: "Cache_get_by_token (cc_token AdderContainerRedeclared) adder_built = Some adder_cached"
    by code_simp
  have h2: "Container_init AdderContainerRedeclared adder_built
       = (Inr \<lparr>cont_class = AdderContainerRedeclared,
               cont_resolutions = [(''AdderPort'', 0), (''AdderService'', 1)]\<rparr>, adder_built)"
    by code_simp
  have k1: "Cache_get_by_token (cc_token Importer) importer_built
       = Some \<lparr>cont_class = Importer, cont_resolutions = [(''AdderService'', 1)]\<rparr>"
    by code_simp
  have k2: "cc_imports Importer = [AdderContainer]"
    by (simp add: Importer_def)
  have k3: "Cache_get_by_token (cc_token AdderContainer) importer_built \<noteq> None"
    by code_simp
  from k2 k3 have k4: "\<forall>B \<in> set (cc_imports Importer).
                         Cache_get_by_token (cc_token B) importer_built \<noteq> None"
    by simp
  from second_construction_adopts_cached_map [OF h1] h2
  have a: "cont_resolutions \<lparr>cont_class = AdderContainerRedeclared,
               cont_resolutions = [(''AdderPort'', 0), (''AdderService'', 1)]\<rparr>
       = cont_resolutions adder_cached
     \<and> (\<exists>d. resolve_imports (cc_imports AdderContainerRedeclared) [] adder_built
            = (Inr d, adder_built))"
    by blast
  from second_construction_adopts_cached_map [OF k1] k4
  have b: "\<exists>a st'. Container_init Importer importer_built = (Inr a, st')
         \<and> cache st' = cache importer_built \<and> next_obj st' = next_obj importer_built
         \<and> length (heap st') = length (heap importer_built)"
    by blast
  from h1 h2 a k1 k2 k3 b show ?thesis by blast
qed

section \<open>A failure in the container's own loop\<close>

text \<open>
  C6. When the import step of \<open>A\<close> has succeeded and the construction of \<open>A\<close> raises, the
  failure is in the loop over the providers and exports of \<open>A\<close>. Then the token of \<open>A\<close>
  is not in the cache, the cache is exactly the one the import step left, every import of
  \<open>A\<close> is in it, and so is every token that was cached before the construction began.
\<close>

theorem failed_resolution_not_registered:
  assumes "resolve_imports (cc_imports A) [] st = (Inr d, st1)"
    and "Container_init A st = (Inl e, st')"
  shows "Cache_get_by_token (cc_token A) st' = None
       \<and> cache st' = cache st1
       \<and> (\<forall>B \<in> set (cc_imports A). Cache_get_by_token (cc_token B) st' \<noteq> None)
       \<and> (\<forall>t. Cache_get_by_token t st \<noteq> None \<longrightarrow> Cache_get_by_token t st' \<noteq> None)"
  using assms(2)
proof (cases rule: Container_init_cases)
  case (imports_failed e)
  with assms(1) show ?thesis by simp
next
  case (own_failed d' st1' e')
  with assms(1) have eq: "d' = d" "st1' = st1" by simp_all
  from own_failed(2) [unfolded eq] have "Cache_get_by_token (cc_token A) st1 = None
      \<and> cache st' = cache st1"
  proof (cases rule: Container_make_resolution_cases)
    case (failed e'')
    with resolution_loop_basic [OF failed(2)] show ?thesis by simp
  qed simp_all
  moreover from construct_cache(2) assms(1)
  have le: "cache_le st st1"
    and imp: "\<forall>B \<in> set (cc_imports A). Cache_get_by_token (cc_token B) st1 \<noteq> None"
    by blast+
  from le have "\<forall>t. Cache_get_by_token t st \<noteq> None \<longrightarrow> Cache_get_by_token t st1 \<noteq> None"
    unfolding cache_le_def by fastforce
  ultimately show ?thesis
    using imp by (simp add: Cache_get_by_token_def)
qed simp

theorem failed_resolution_not_registered_witness:
  "(\<exists>d st1. resolve_imports (cc_imports BrokenContainer) [] init_state = (Inr d, st1))
   \<and> fst (Container_init BrokenContainer init_state)
       = Inl (KeyError ''Provider with SubstractorPort not found'')
   \<and> Cache_get_by_token (cc_token BrokenContainer) (snd (Container_init BrokenContainer init_state))
       = None
   \<and> AdderContainer \<in> set (cc_imports BrokenContainer)
   \<and> Cache_get_by_token (cc_token AdderContainer)
         (snd (Container_init BrokenContainer init_state)) \<noteq> None"
proof -
  have m: "AdderContainer \<in> set (cc_imports BrokenContainer)"
    by (simp add: BrokenContainer_def)
  have "fst (resolve_imports (cc_imports BrokenContainer) [] init_state)
          = Inr [(''AdderService'', 1)]"
    by code_simp
  then have h1: "resolve_imports (cc_imports BrokenContainer) [] init_state
          = (Inr [(''AdderService'', 1)],
             snd (resolve_imports (cc_imports BrokenContainer) [] init_state))"
    by (simp add: prod_eq_iff)
  have f: "fst (Container_init BrokenContainer init_state)
          = Inl (KeyError ''Provider with SubstractorPort not found'')"
    by code_simp
  then have h2: "Container_init BrokenContainer init_state
          = (Inl (KeyError ''Provider with SubstractorPort not found''),
             snd (Container_init BrokenContainer init_state))"
    by (simp add: prod_eq_iff)
  from failed_resolution_not_registered [OF h1 h2] h1 f m show ?thesis by blast
qed

section \<open>Counting the resolutions of a container without imports\<close>

lemma Container_init_no_imports:
  assumes "cc_imports A = []" "Cache_get_by_token (cc_token A) st = None"
    and "Container_init A st = (Inr a, st')"
  obtains d1 st1 where
    "resolution_loop A (cc_providers A @ cc_exports A) [] st = (Inr d1, st1)"
    "st' = Cache_add \<lparr>cont_class = A, cont_resolutions = d1\<rparr> st1"
    "a = \<lparr>cont_class = A, cont_resolutions = d1\<rparr>"
proof -
  from assms(3) assms(1) obtain d1 where
    mk: "Container_make_resolution A [] st = (Inr d1, st')"
    and a: "a = \<lparr>cont_class = A, cont_resolutions = d1\<rparr>"
    by (cases rule: Container_init_cases) auto
  from mk assms(2) obtain st1 where
    "resolution_loop A (cc_providers A @ cc_exports A) [] st = (Inr d1, st1)"
    "st' = Cache_add \<lparr>cont_class = A, cont_resolutions = d1\<rparr> st1"
    by (cases rule: Container_make_resolution_cases) auto
  with a that show ?thesis by blast
qed

lemma length_filter_alist:
  assumes "distinct (map fst d)" "map fst d = map f ps"
  shows "length (filter (\<lambda>(k, a). Q a) d) = length (filter (\<lambda>p. Q (the (map_of d (f p)))) ps)"
proof -
  have "length (filter (\<lambda>(k, a). Q a) (map (\<lambda>k. (k, the (map_of d k))) (map fst d)))
        = length (filter (\<lambda>(k, a). Q a) d)"
    by (simp only: alist_by_keys [OF assms(1)])
  then have "length (filter (\<lambda>(k, a). Q a) (map (\<lambda>k. (k, the (map_of d k))) (map f ps)))
        = length (filter (\<lambda>(k, a). Q a) d)"
    unfolding assms(2) .
  then show ?thesis by (simp add: filter_map comp_def)
qed

text \<open>
  C3, as the spec states it, is false. \<open>AdapterExporter\<close> has no import, no provider and
  one export, \<open>AdderAdapter\<close>. Built after \<open>AdderContainer\<close>, which holds a record for
  that token with role provider, it takes that record from the cache and, its
  \<^verbatim>\<open>re_export\<close> being unset, writes role provider: its \<^verbatim>\<open>providers\<close> view has one
  entry and its \<^verbatim>\<open>exports\<close> view none.
\<close>

theorem resolutions_count_counterexample:
  "cc_imports AdapterExporter = []
   \<and> length (cc_providers AdapterExporter) = 0
   \<and> length (cc_exports AdapterExporter) = 1
   \<and> fst (Container_init AdapterExporter adder_built)
       = Inr \<lparr>cont_class = AdapterExporter, cont_resolutions = [(''AdderPort'', 0)]\<rparr>
   \<and> length (providers_view (heap (snd (Container_init AdapterExporter adder_built)))
               [(''AdderPort'', 0)]) = 1
   \<and> length (exports_view (heap (snd (Container_init AdapterExporter adder_built)))
               [(''AdderPort'', 0)]) = 0"
  by code_simp

text \<open>
  C3, amended. Let \<open>A\<close> have no imports, \<open>P\<close> providers and \<open>X\<close> exports with pairwise
  distinct tokens (a class identity denoting one class), let its token not be in the
  cache, and let either \<^verbatim>\<open>re_export\<close> be set or no export class be found by the cache's
  provider lookup. Then, from a well-formed state, if the construction returns, the map has
  \<open>P + X\<close> entries, the \<^verbatim>\<open>providers\<close> view \<open>P\<close> and the \<^verbatim>\<open>exports\<close> view \<open>X\<close>.
\<close>

theorem resolutions_count_without_imports:
  assumes ok: "state_ok st"
    and no_imports: "cc_imports A = []"
    and dist: "distinct (map cls_token (cc_providers A @ cc_exports A))"
    and ids: "inj_on cls_id (set (cc_providers A @ cc_exports A))"
    and uncached: "Cache_get_by_token (cc_token A) st = None"
    and no_demotion: "cc_re_export A \<or> (\<forall>x \<in> set (cc_exports A). Cache_get_provider x st = None)"
    and built: "Container_init A st = (Inr a, st')"
  shows "length (cont_resolutions a) = length (cc_providers A) + length (cc_exports A)
       \<and> length (providers_view (heap st') (cont_resolutions a)) = length (cc_providers A)
       \<and> length (exports_view (heap st') (cont_resolutions a)) = length (cc_exports A)"
proof -
  let ?ps = "cc_providers A @ cc_exports A"
  from no_imports uncached built obtain d1 st1 where
    loop: "resolution_loop A ?ps [] st = (Inr d1, st1)"
    and st': "st' = Cache_add \<lparr>cont_class = A, cont_resolutions = d1\<rparr> st1"
    and a: "a = \<lparr>cont_class = A, cont_resolutions = d1\<rparr>"
    by (rule Container_init_no_imports)
  from resolution_loop_keys [OF loop dist] have keys: "map fst d1 = map cls_token ?ps" by simp
  with dist have dk: "distinct (map fst d1)" by simp
  let ?role = "\<lambda>p. res_type (heap st1 ! the (map_of d1 (cls_token p)))"
  have prov: "?role p = Provider" if p: "p \<in> set (cc_providers A)" for p
  proof -
    from p have m: "p \<in> set ?ps" by simp
    from distinct_tokens_not_both(1) [OF dist ids p]
    have h: "hit_role A p = Provider" by (simp add: hit_role_def)
    from p have ms: "miss_role A p = Provider" by (auto simp: miss_role_def cls_mem_def)
    from resolution_loop_entry [OF ok dist m loop] h ms show ?thesis
      by (auto split: option.splits)
  qed
  have expo: "?role x = Export" if x: "x \<in> set (cc_exports A)" for x
  proof -
    from x have m: "x \<in> set ?ps" by simp
    from distinct_tokens_not_both(2) [OF dist ids x]
    have ms: "miss_role A x = Export" by (simp add: miss_role_def)
    from x have h: "cc_re_export A \<Longrightarrow> hit_role A x = Export"
      by (auto simp: hit_role_def cls_mem_def)
    from resolution_loop_entry [OF ok dist m loop] h ms no_demotion x show ?thesis
      by (auto split: option.splits)
  qed
  have pv: "length (providers_view (heap st1) d1) = length (filter (\<lambda>p. ?role p = Provider) ?ps)"
    unfolding providers_view_def
    by (rule length_filter_alist [OF dk keys, where Q = "\<lambda>a. res_type (heap st1 ! a) = Provider"])
  have ev: "length (exports_view (heap st1) d1) = length (filter (\<lambda>p. ?role p = Export) ?ps)"
    unfolding exports_view_def
    by (rule length_filter_alist [OF dk keys, where Q = "\<lambda>a. res_type (heap st1 ! a) = Export"])
  have "filter (\<lambda>p. ?role p = Provider) (cc_providers A) = cc_providers A"
       "filter (\<lambda>p. ?role p = Provider) (cc_exports A) = []"
       "filter (\<lambda>p. ?role p = Export) (cc_providers A) = []"
       "filter (\<lambda>p. ?role p = Export) (cc_exports A) = cc_exports A"
    using prov expo by (auto simp: filter_empty_conv filter_id_conv)
  with pv ev have "length (providers_view (heap st1) d1) = length (cc_providers A)"
       "length (exports_view (heap st1) d1) = length (cc_exports A)"
    by simp_all
  moreover from keys have "length d1 = length ?ps" by (metis length_map)
  ultimately show ?thesis using a st' by simp
qed

theorem resolutions_count_without_imports_witness:
  "state_ok init_state
   \<and> cc_imports AdderContainer = []
   \<and> distinct (map cls_token (cc_providers AdderContainer @ cc_exports AdderContainer))
   \<and> Container_init AdderContainer init_state = (Inr adder_cached, adder_built)
   \<and> length (cont_resolutions adder_cached)
       = length (cc_providers AdderContainer) + length (cc_exports AdderContainer)
   \<and> length (providers_view (heap adder_built) (cont_resolutions adder_cached))
       = length (cc_providers AdderContainer)
   \<and> length (exports_view (heap adder_built) (cont_resolutions adder_cached))
       = length (cc_exports AdderContainer)"
proof -
  have h2: "cc_imports AdderContainer = []"
    by (simp add: AdderContainer_def)
  have h3: "distinct (map cls_token (cc_providers AdderContainer @ cc_exports AdderContainer))"
    by (simp add: AdderContainer_def AdderAdapter_def AdderService_def)
  have h4: "inj_on cls_id (set (cc_providers AdderContainer @ cc_exports AdderContainer))"
    by (simp add: AdderContainer_def AdderAdapter_def AdderService_def)
  have h5: "Cache_get_by_token (cc_token AdderContainer) init_state = None"
    by (simp add: Cache_get_by_token_def init_state_def)
  have h6: "cc_re_export AdderContainer
            \<or> (\<forall>x \<in> set (cc_exports AdderContainer). Cache_get_provider x init_state = None)"
    by (simp add: Cache_get_provider_def init_state_def)
  have h7: "Container_init AdderContainer init_state = (Inr adder_cached, adder_built)"
    by code_simp
  from resolutions_count_without_imports [OF state_ok_init h2 h3 h4 h5 h6 h7]
    state_ok_init h2 h3 h7
  show ?thesis by blast
qed

section \<open>Two containers that provide the same adapter\<close>

text \<open>
  C4. The code does not do what the claim says. \<open>AdapterProvider\<close> and
  \<open>AdapterProviderExporter\<close> have no imports and both list \<open>AdderAdapter\<close> in their
  providers; the second lists it in its exports too, with \<^verbatim>\<open>re_export\<close> set. Built in
  that order in a new process, the first holds instance 0 under the adapter's token and
  the second holds instance 1: its first round takes the cached record and assigns role
  export to it, so its second round finds no provider in the cache and builds a new
  instance. Likewise \<open>AdapterProviderTwo\<close>, which lists the adapter in its providers
  only, gets instance 1 when \<open>AdapterReExporter\<close>, which exports the adapter with
  \<^verbatim>\<open>re_export\<close> set, is constructed between \<open>AdapterProvider\<close> and it: the record of
  \<open>AdapterProvider\<close> has role export by then, and the provider lookup passes it by.
\<close>

theorem sibling_instance_not_reused:
  "AdderAdapter \<in> set (cc_providers AdapterProvider)
   \<and> AdderAdapter \<in> set (cc_providers AdapterProviderExporter)
   \<and> AdderAdapter \<in> set (cc_providers AdapterProviderTwo)
   \<and> cc_imports AdapterProvider = [] \<and> cc_imports AdapterProviderExporter = []
   \<and> cc_imports AdapterReExporter = [] \<and> cc_imports AdapterProviderTwo = []
   \<and> Container_init AdapterProvider init_state = (Inr AdapterProvider_built, provider_built)
   \<and> map_of (cont_resolutions AdapterProvider_built) (cls_token AdderAdapter) = Some 0
   \<and> inst_id (res_instance (heap provider_built ! 0)) = 0
   \<and> fst (Container_init AdapterProviderExporter provider_built)
       = Inr \<lparr>cont_class = AdapterProviderExporter, cont_resolutions = [(''AdderPort'', 1)]\<rparr>
   \<and> inst_id (res_instance
        (heap (snd (Container_init AdapterProviderExporter provider_built)) ! 0)) = 0
   \<and> inst_id (res_instance
        (heap (snd (Container_init AdapterProviderExporter provider_built)) ! 1)) = 1
   \<and> fst (Container_init AdapterReExporter provider_built)
       = Inr \<lparr>cont_class = AdapterReExporter, cont_resolutions = [(''AdderPort'', 0)]\<rparr>
   \<and> res_type (heap (snd (Container_init AdapterReExporter provider_built)) ! 0) = Export
   \<and> fst (Container_init AdapterProviderTwo
             (snd (Container_init AdapterReExporter provider_built)))
       = Inr \<lparr>cont_class = AdapterProviderTwo, cont_resolutions = [(''AdderPort'', 1)]\<rparr>
   \<and> inst_id (res_instance
        (heap (snd (Container_init AdapterProviderTwo
                      (snd (Container_init AdapterReExporter provider_built)))) ! 1)) = 1"
  by code_simp

end
